theory Spec2Isabelle
  imports Complex_Main "HOL-Library.Signed_Division"
begin

section \<open>Banded (sliding-window) attention products: the CUDA kernels of local\_product\<close>

text \<open>
  This theory embeds \<^verbatim>\<open>fast_transformers/local_product/local_product_cuda.cu\<close>.

  Numbers. The kernels compute in single precision. Here the entries of the query, key,
  value, attention and gradient tensors are real numbers and the arithmetic on them is
  exact; rounding and the order of a floating-point summation are outside the model. The
  additive mask and the score tensor may moreover hold the value minus infinity
  (\<open>NegInf\<close>), which is how \<^verbatim>\<open>local_dot_product\<close> initialises its output.

  Integers. The C++ \<^verbatim>\<open>int\<close> is an unbounded \<open>int\<close> here (sizes are assumed small
  enough not to wrap); the C++ division \<^verbatim>\<open>/\<close> truncates towards zero and is written
  \<open>sdiv\<close>.

  Threads. A kernel launch runs its thread blocks one after the other, and the threads of
  a block one after the other between two barriers. Every thread of these kernels writes
  memory cells that no other thread of the same phase writes, so this schedule stands for
  all of them.

  Memory. A tensor is a total function of the multi-index. The accessors of the source do
  not check bounds; every read and write of the kernels stands behind a comparison with the
  sizes, and these comparisons are part of the model.
\<close>

subsection \<open>Tensors\<close>

text \<open>A float that is finite or minus infinity, with the addition of the two.\<close>

datatype xfloat = NegInf | Fin real

fun xadd :: "xfloat \<Rightarrow> xfloat \<Rightarrow> xfloat" where
  "xadd (Fin a) (Fin b) = Fin (a + b)"
| "xadd _ _ = NegInf"

text \<open>
  A contiguous tensor: its sizes and its entries by multi-index. \<^verbatim>\<open>t.size(d)\<close> is
  \<open>size_at t d\<close>, and \<^verbatim>\<open>t[n][h][l][e]\<close> is \<open>elems t [n, h, l, e]\<close>.
\<close>

record 'a tensor =
  sizes :: "int list"
  elems :: "int list \<Rightarrow> 'a"

definition size_at :: "'a tensor \<Rightarrow> nat \<Rightarrow> int" where
  "size_at t d = sizes t ! d"

definition numel :: "'a tensor \<Rightarrow> int" where
  "numel t = prod_list (sizes t)"

definition new_full :: "int list \<Rightarrow> 'a \<Rightarrow> 'a tensor" where
  "new_full shape v = \<lparr>sizes = shape, elems = (\<lambda>_. v)\<rparr>"

definition zeros_like :: "'b tensor \<Rightarrow> real tensor" where
  "zeros_like t = \<lparr>sizes = sizes t, elems = (\<lambda>_. 0)\<rparr>"

text \<open>The offset of a multi-index in the contiguous storage, and back.\<close>

fun ravel :: "int list \<Rightarrow> int list \<Rightarrow> int" where
  "ravel (s # ss) (i # ix) = i * prod_list ss + ravel ss ix"
| "ravel _ _ = 0"

fun unravel :: "int list \<Rightarrow> int \<Rightarrow> int list" where
  "unravel [] off = []"
| "unravel (s # ss) off = (off div prod_list ss) # unravel ss (off mod prod_list ss)"

text \<open>\<^verbatim>\<open>t.view(shape)\<close>: the same storage read under other sizes.\<close>

definition view :: "'a tensor \<Rightarrow> int list \<Rightarrow> 'a tensor" where
  "view t shape = \<lparr>sizes = shape, elems = (\<lambda>ix. elems t (unravel (sizes t) (ravel shape ix)))\<rparr>"

text \<open>\<^verbatim>\<open>t.narrow(d, start, len)\<close> and \<^verbatim>\<open>t.transpose(1, 2)\<close> of a rank-3 tensor.\<close>

definition narrow :: "'a tensor \<Rightarrow> nat \<Rightarrow> int \<Rightarrow> int \<Rightarrow> 'a tensor" where
  "narrow t d start len =
     \<lparr>sizes = (sizes t)[d := len], elems = (\<lambda>ix. elems t (ix[d := ix ! d + start]))\<rparr>"

definition transpose12 :: "'a tensor \<Rightarrow> 'a tensor" where
  "transpose12 t =
     \<lparr>sizes = [size_at t 0, size_at t 2, size_at t 1],
      elems = (\<lambda>ix. elems t [ix ! 0, ix ! 2, ix ! 1])\<rparr>"

text \<open>
  The batched matrix product of the tensor library, \<^verbatim>\<open>at::matmul_out\<close>, of an
  \<open>(N, n_a, E)\<close> tensor with an \<open>(N, E, n_b)\<close> tensor. It overwrites every entry of
  the view it is given, so the scratch buffer of \<^verbatim>\<open>sliding_dot\<close> is the value of the
  product.
\<close>

definition dot :: "int \<Rightarrow> (int \<Rightarrow> real) \<Rightarrow> (int \<Rightarrow> real) \<Rightarrow> real" where
  "dot E u v = (\<Sum>e\<leftarrow>[0..E - 1]. u e * v e)"

definition matmul :: "real tensor \<Rightarrow> real tensor \<Rightarrow> real tensor" where
  "matmul X Y =
     \<lparr>sizes = [size_at X 0, size_at X 1, size_at Y 2],
      elems = (\<lambda>ix. dot (size_at X 2) (\<lambda>e. elems X [ix ! 0, ix ! 1, e])
                                        (\<lambda>e. elems Y [ix ! 0, e, ix ! 2]))\<rparr>"

subsection \<open>Kernel launches\<close>

record cuda_thread =
  blockIdx_x :: int
  blockDim_x :: int
  threadIdx_x :: int

text \<open>\<^verbatim>\<open>kernel<<<blocks, threads>>>(...)\<close> for a kernel without barriers.\<close>

definition launch :: "int \<Rightarrow> int \<Rightarrow> (cuda_thread \<Rightarrow> 's \<Rightarrow> 's) \<Rightarrow> 's \<Rightarrow> 's" where
  "launch blocks threads body st =
     fold (\<lambda>b. fold (\<lambda>t. body \<lparr>blockIdx_x = b, blockDim_x = threads, threadIdx_x = t\<rparr>)
                     [0..threads - 1])
          [0..blocks - 1] st"

definition ceildiv :: "int \<Rightarrow> int \<Rightarrow> int" where
  "ceildiv a b = (a + b - 1) sdiv b"

subsection \<open>The sliding dot product\<close>

text \<open>
  The two copy implementations. Each is the body of one thread of
  \<^verbatim>\<open>sliding_dot_copy_kernel\<close>, which only forwards its arguments.
\<close>

record masked_lp_copy =
  attn_mask :: "xfloat tensor"
  key_lengths :: "int tensor"

definition masked_lp_copy_call ::
  "masked_lp_copy \<Rightarrow> cuda_thread \<Rightarrow> real tensor \<Rightarrow> xfloat tensor \<Rightarrow> int \<Rightarrow> int \<Rightarrow> int \<Rightarrow> int \<Rightarrow> int
     \<Rightarrow> xfloat tensor" where
  "masked_lp_copy_call self th buffer output local_context l_start s_start buffer_dim12 buffer_dim2 =
     (let idx = blockIdx_x th * blockDim_x th + threadIdx_x th;
          n = idx sdiv buffer_dim12;
          idx = idx - n * buffer_dim12;
          l_offset = idx sdiv buffer_dim2;
          idx = idx - l_offset * buffer_dim2;
          s_offset = idx
      in if n \<ge> size_at buffer 0 then output
         else
           let l = l_start + l_offset;
               s = s_start + s_offset;
               k = s - l + local_context sdiv 2
           in if k < 0 \<or> k \<ge> local_context then output
              else output\<lparr>elems := (elems output)
                     ([n, l, k] := xadd (Fin (elems buffer [n, l_offset, s_offset]))
                                        (elems (attn_mask self) [l, s]))\<rparr>)"

definition masked_lp_copy_factory :: "xfloat tensor \<Rightarrow> int tensor \<Rightarrow> masked_lp_copy" where
  "masked_lp_copy_factory attn_mask' key_lengths' =
     \<lparr>attn_mask = attn_mask', key_lengths = key_lengths'\<rparr>"

definition lp_copy ::
  "cuda_thread \<Rightarrow> real tensor \<Rightarrow> real tensor \<Rightarrow> int \<Rightarrow> int \<Rightarrow> int \<Rightarrow> int \<Rightarrow> int \<Rightarrow> real tensor" where
  "lp_copy th buffer output local_context l_start s_start buffer_dim12 buffer_dim2 =
     (let idx = blockIdx_x th * blockDim_x th + threadIdx_x th;
          n = idx sdiv buffer_dim12;
          idx = idx - n * buffer_dim12;
          l_offset = idx sdiv buffer_dim2;
          idx = idx - l_offset * buffer_dim2;
          s_offset = idx
      in if n \<ge> size_at buffer 0 then output
         else
           let l = l_start + l_offset;
               s = s_start + s_offset;
               k = s - l + local_context sdiv 2
           in if k < 0 \<or> k \<ge> local_context then output
              else output\<lparr>elems := (elems output)
                     ([n, l, k] := elems buffer [n, l_offset, s_offset])\<rparr>)"

text \<open>
  \<^verbatim>\<open>sliding_dot\<close>: the loop over the chunks of \<open>a_blocks\<close> query positions, from the
  chunk that starts at \<open>l\<close>. One iteration is \<open>sliding_dot_chunk\<close>. The scratch tensor
  \<^verbatim>\<open>buffer\<close> of size \<open>(N, a_blocks, a_blocks + local_context)\<close> is only read through its
  view \<^verbatim>\<open>buff\<close>, after the matrix product has written all of that view; the two
  \<^verbatim>\<open>narrow\<close> calls that make the view stay inside the buffer (\<open>scratch_buffer_fits\<close>
  below), so they cannot fail.
\<close>

definition a_blocks :: int where
  "a_blocks = 64"

definition sliding_dot_chunk ::
  "(cuda_thread \<Rightarrow> real tensor \<Rightarrow> 'a tensor \<Rightarrow> int \<Rightarrow> int \<Rightarrow> int \<Rightarrow> int \<Rightarrow> int \<Rightarrow> 'a tensor)
     \<Rightarrow> real tensor \<Rightarrow> real tensor \<Rightarrow> int \<Rightarrow> int \<Rightarrow> 'a tensor \<Rightarrow> 'a tensor" where
  "sliding_dot_chunk copy_implementation A B local_context l out =
     (let L = size_at A 1;
          s_start = max 0 (l - local_context sdiv 2);
          s_end = min L (l - local_context sdiv 2 + local_context + a_blocks);
          n_b = s_end - s_start;
          n_a = min (L - l) a_blocks;
          buff = matmul (narrow A 1 l n_a) (transpose12 (narrow B 1 s_start n_b));
          threads = 1024;
          blocks = ceildiv (numel buff) threads
      in launch blocks threads
           (\<lambda>th output. copy_implementation th buff output local_context l s_start
                           (size_at buff 1 * size_at buff 2) (size_at buff 2))
           out)"

function sliding_dot_loop ::
  "(cuda_thread \<Rightarrow> real tensor \<Rightarrow> 'a tensor \<Rightarrow> int \<Rightarrow> int \<Rightarrow> int \<Rightarrow> int \<Rightarrow> int \<Rightarrow> 'a tensor)
     \<Rightarrow> real tensor \<Rightarrow> real tensor \<Rightarrow> int \<Rightarrow> int \<Rightarrow> 'a tensor \<Rightarrow> 'a tensor" where
  "sliding_dot_loop copy_implementation A B local_context l out =
     (if l < size_at A 1
      then sliding_dot_loop copy_implementation A B local_context (l + a_blocks)
             (sliding_dot_chunk copy_implementation A B local_context l out)
      else out)"
  by pat_completeness auto
termination
  by (relation "measure (\<lambda>(c, A, B, lc, l, out). nat (size_at A 1 - l))")
     (auto simp: a_blocks_def)

declare sliding_dot_loop.simps [simp del]

definition sliding_dot ::
  "(cuda_thread \<Rightarrow> real tensor \<Rightarrow> 'a tensor \<Rightarrow> int \<Rightarrow> int \<Rightarrow> int \<Rightarrow> int \<Rightarrow> int \<Rightarrow> 'a tensor)
     \<Rightarrow> real tensor \<Rightarrow> real tensor \<Rightarrow> 'a tensor \<Rightarrow> int \<Rightarrow> 'a tensor" where
  "sliding_dot copy_implementation A B out local_context =
     sliding_dot_loop copy_implementation A B local_context 0 out"

subsection \<open>The tiled kernels\<close>

text \<open>The tile sides, the template parameters \<^verbatim>\<open>LB\<close>, \<^verbatim>\<open>KB\<close>, \<^verbatim>\<open>EB\<close> at their defaults.\<close>

definition LB :: int where
  "LB = 32"

definition KB :: int where
  "KB = 32"

definition EB :: int where
  "EB = 32"

record dim3 =
  dim_x :: int
  dim_y :: int
  dim_z :: int

text \<open>
  The prologue the two tiled kernels share: the block index taken apart along the
  strides, and the thread index into the position inside the tile. The result is
  \<open>(n, h, l_local, e_local, l, e)\<close>; the transposed kernel calls the third and the fifth
  \<^verbatim>\<open>s_local\<close> and \<^verbatim>\<open>s\<close>.
\<close>

definition tile_coords :: "dim3 \<Rightarrow> cuda_thread \<Rightarrow> int \<times> int \<times> int \<times> int \<times> int \<times> int" where
  "tile_coords strides th =
     (let idx = blockIdx_x th;
          n = idx sdiv dim_x strides;
          idx = idx - n * dim_x strides;
          h = idx sdiv dim_y strides;
          idx = idx - h * dim_y strides;
          lblock = idx sdiv dim_z strides;
          idx = idx - lblock * dim_z strides;
          eblock = idx;
          l_local = threadIdx_x th sdiv EB;
          e_local = threadIdx_x th - l_local * EB;
          l = lblock * LB + l_local;
          e = eblock * EB + e_local
      in (n, h, l_local, e_local, l, e))"

text \<open>
  The two tiled kernels have the same loop,
  \<^verbatim>\<open>for (int k=0; k<local_context; k+=KB) { stores; __syncthreads(); sum; __syncthreads(); }\<close>,
  and every thread of a block runs it with the same bounds. \<open>tile_loop\<close> is this loop for
  one block: in each iteration all threads of the block run up to the first barrier
  (\<open>load\<close>, the stores into shared memory), then all of them run up to the second one
  (\<open>compute\<close>, the dot product and the accumulation into the output). \<open>launch_tiles\<close>
  runs the blocks of the grid; the shared memory of a block is not initialised.

  The shared memory of a block is one array of floats, \<^verbatim>\<open>shared_mem\<close>;
  \<^verbatim>\<open>s_factors\<close> starts at its offset 0 and \<^verbatim>\<open>s_values\<close> at \<open>LB * KB\<close>.
\<close>

function tile_loop ::
  "(int \<Rightarrow> cuda_thread \<Rightarrow> (int \<Rightarrow> real) \<Rightarrow> (int \<Rightarrow> real))
     \<Rightarrow> (int \<Rightarrow> cuda_thread \<Rightarrow> (int \<Rightarrow> real) \<Rightarrow> real tensor \<Rightarrow> real tensor)
     \<Rightarrow> int \<Rightarrow> int \<Rightarrow> int \<Rightarrow> int \<Rightarrow> (int \<Rightarrow> real) \<times> real tensor
     \<Rightarrow> (int \<Rightarrow> real) \<times> real tensor" where
  "tile_loop load compute local_context block threads k (shared_mem, output) =
     (if k < local_context
      then
        let shared_mem' =
              fold (\<lambda>t. load k \<lparr>blockIdx_x = block, blockDim_x = threads, threadIdx_x = t\<rparr>)
                   [0..threads - 1] shared_mem;
            output' =
              fold (\<lambda>t. compute k \<lparr>blockIdx_x = block, blockDim_x = threads, threadIdx_x = t\<rparr>
                           shared_mem')
                   [0..threads - 1] output
        in tile_loop load compute local_context block threads (k + KB) (shared_mem', output')
      else (shared_mem, output))"
  by pat_completeness auto
termination
  by (relation "measure (\<lambda>(load, compute, local_context, block, threads, k, st).
                            nat (local_context - k))")
     (auto simp: KB_def)

declare tile_loop.simps [simp del]

definition launch_tiles ::
  "int \<Rightarrow> int
     \<Rightarrow> (int \<Rightarrow> cuda_thread \<Rightarrow> (int \<Rightarrow> real) \<Rightarrow> (int \<Rightarrow> real))
     \<Rightarrow> (int \<Rightarrow> cuda_thread \<Rightarrow> (int \<Rightarrow> real) \<Rightarrow> real tensor \<Rightarrow> real tensor)
     \<Rightarrow> int \<Rightarrow> real tensor \<Rightarrow> real tensor" where
  "launch_tiles blocks threads load compute local_context output =
     fold (\<lambda>block out. snd (tile_loop load compute local_context block threads 0
                                 (\<lambda>i. undefined, out)))
          [0..blocks - 1] output"

text \<open>
  \<^verbatim>\<open>local_copy_scaled<<<blocks, threads, shared_mem>>>(factors, values, output, strides)\<close>:
  the two phases of a thread in the iteration for \<open>k\<close>, and the kernel.
\<close>

definition local_copy_scaled_load ::
  "real tensor \<Rightarrow> real tensor \<Rightarrow> dim3 \<Rightarrow> int \<Rightarrow> cuda_thread \<Rightarrow> (int \<Rightarrow> real) \<Rightarrow> (int \<Rightarrow> real)" where
  "local_copy_scaled_load factors values strides k th shared_mem =
     (let (n, h, l_local, e_local, l, e) = tile_coords strides th;
          local_context = size_at factors 3;
          s_factors = 0;
          s_values = s_factors + LB * KB
      in if n > size_at factors 0 then shared_mem
         else
           let s1 = l - local_context sdiv 2 + k;
               s2 = s1 + LB;
               scurrent = s1 + e_local;
               shared_mem = shared_mem(s_factors + (l_local * KB + e_local) :=
                 (if l < size_at factors 2 \<and> k + e_local < local_context
                       \<and> scurrent \<ge> 0 \<and> scurrent < size_at values 2
                  then elems factors [n, h, l, k + e_local] else 0));
               shared_mem = shared_mem(s_values + (l_local * EB + e_local) :=
                 (if e < size_at values 3 \<and> s1 \<ge> 0 \<and> s1 < size_at values 2
                  then elems values [n, h, s1, e] else 0));
               shared_mem = shared_mem(s_values + ((l_local + LB) * EB + e_local) :=
                 (if e < size_at values 3 \<and> s2 \<ge> 0 \<and> s2 < size_at values 2
                  then elems values [n, h, s2, e] else 0))
           in shared_mem)"

definition local_copy_scaled_compute ::
  "real tensor \<Rightarrow> real tensor \<Rightarrow> dim3 \<Rightarrow> int \<Rightarrow> cuda_thread \<Rightarrow> (int \<Rightarrow> real) \<Rightarrow> real tensor
     \<Rightarrow> real tensor" where
  "local_copy_scaled_compute factors values strides k th shared_mem output =
     (let (n, h, l_local, e_local, l, e) = tile_coords strides th;
          s_factors = 0;
          s_values = s_factors + LB * KB
      in if n > size_at factors 0 then output
         else
           let result = fold (\<lambda>k_local result. result
                                 + shared_mem (s_factors + (l_local * KB + k_local))
                                   * shared_mem (s_values + ((k_local + l_local) * EB + e_local)))
                             [0..KB - 1] 0
           in if l < size_at factors 2 \<and> e < size_at values 3
              then output\<lparr>elems := (elems output)
                     ([n, h, l, e] := elems output [n, h, l, e] + result)\<rparr>
              else output)"

definition local_copy_scaled ::
  "int \<Rightarrow> int \<Rightarrow> int \<Rightarrow> real tensor \<Rightarrow> real tensor \<Rightarrow> real tensor \<Rightarrow> dim3 \<Rightarrow> real tensor" where
  "local_copy_scaled blocks threads shared_mem factors values output strides =
     launch_tiles blocks threads
       (local_copy_scaled_load factors values strides)
       (local_copy_scaled_compute factors values strides)
       (size_at factors 3) output"

text \<open>The two index policies of the transposed kernel.\<close>

definition IncreasingLK :: "int \<Rightarrow> int \<Rightarrow> int \<Rightarrow> int" where
  "IncreasingLK k e_local local_context = k + e_local"

definition ReverseLK :: "int \<Rightarrow> int \<Rightarrow> int \<Rightarrow> int" where
  "ReverseLK k e_local local_context = local_context - k - e_local - 1"

definition local_copy_scaled_transpose_load ::
  "real tensor \<Rightarrow> real tensor \<Rightarrow> dim3 \<Rightarrow> (int \<Rightarrow> int \<Rightarrow> int \<Rightarrow> int) \<Rightarrow> int \<Rightarrow> cuda_thread
     \<Rightarrow> (int \<Rightarrow> real) \<Rightarrow> (int \<Rightarrow> real)" where
  "local_copy_scaled_transpose_load factors values strides lk_policy k th shared_mem =
     (let (n, h, s_local, e_local, s, e) = tile_coords strides th;
          local_context = size_at factors 3;
          s_factors = 0;
          s_values = s_factors + LB * KB
      in if n > size_at factors 0 then shared_mem
         else
           let l = s - (local_context - 1) sdiv 2 + k;
               l2 = l + LB;
               shared_mem = shared_mem(s_values + (s_local * EB + e_local) :=
                 (if l \<ge> 0 \<and> l < size_at factors 2 \<and> e < size_at values 3
                  then elems values [n, h, l, e] else 0));
               shared_mem = shared_mem(s_values + ((s_local + LB) * EB + e_local) :=
                 (if l2 \<ge> 0 \<and> l2 < size_at factors 2 \<and> e < size_at values 3
                  then elems values [n, h, l2, e] else 0));
               lcurrent = l + e_local;
               kcurrent = k + e_local;
               shared_mem = shared_mem(s_factors + (s_local * KB + e_local) :=
                 (if lcurrent \<ge> 0 \<and> lcurrent < size_at factors 2 \<and> kcurrent < local_context
                  then elems factors [n, h, l + e_local, lk_policy k e_local local_context] else 0))
           in shared_mem)"

definition local_copy_scaled_transpose_compute ::
  "real tensor \<Rightarrow> real tensor \<Rightarrow> dim3 \<Rightarrow> int \<Rightarrow> cuda_thread \<Rightarrow> (int \<Rightarrow> real) \<Rightarrow> real tensor
     \<Rightarrow> real tensor" where
  "local_copy_scaled_transpose_compute factors values strides k th shared_mem output =
     (let (n, h, s_local, e_local, s, e) = tile_coords strides th;
          s_factors = 0;
          s_values = s_factors + LB * KB
      in if n > size_at factors 0 then output
         else
           let result = fold (\<lambda>k_local result. result
                                 + shared_mem (s_values + ((s_local + k_local) * EB + e_local))
                                   * shared_mem (s_factors + (s_local * KB + k_local)))
                             [0..KB - 1] 0
           in if s < size_at values 2 \<and> e < size_at values 3
              then output\<lparr>elems := (elems output)
                     ([n, h, s, e] := elems output [n, h, s, e] + result)\<rparr>
              else output)"

definition local_copy_scaled_transpose ::
  "int \<Rightarrow> int \<Rightarrow> int \<Rightarrow> real tensor \<Rightarrow> real tensor \<Rightarrow> real tensor \<Rightarrow> dim3
     \<Rightarrow> (int \<Rightarrow> int \<Rightarrow> int \<Rightarrow> int) \<Rightarrow> real tensor" where
  "local_copy_scaled_transpose blocks threads shared_mem factors values output strides lk_policy =
     launch_tiles blocks threads
       (local_copy_scaled_transpose_load factors values strides lk_policy)
       (local_copy_scaled_transpose_compute factors values strides)
       (size_at factors 3) output"

subsection \<open>The four operations\<close>

definition local_dot_product ::
  "real tensor \<Rightarrow> real tensor \<Rightarrow> xfloat tensor \<Rightarrow> int tensor \<Rightarrow> int \<Rightarrow> xfloat tensor" where
  "local_dot_product queries keys attn_mask' key_lengths' local_context =
     (let N = size_at queries 0;
          H = size_at queries 1;
          L = size_at queries 2;
          S = size_at keys 2;
          E = size_at queries 3;
          output = new_full [N, H, L, local_context] NegInf
      in view (sliding_dot (masked_lp_copy_call (masked_lp_copy_factory attn_mask' key_lengths'))
                 (view queries [N * H, L, E])
                 (view keys [N * H, L, E])
                 (view output [N * H, L, local_context])
                 local_context)
           [N, H, L, local_context])"

definition local_dot_backward ::
  "real tensor \<Rightarrow> real tensor \<Rightarrow> int tensor \<Rightarrow> real tensor \<Rightarrow> int \<Rightarrow> real tensor \<times> real tensor" where
  "local_dot_backward queries keys key_lengths' grad local_context =
     (let N = size_at grad 0;
          H = size_at grad 1;
          L = size_at grad 2;
          K = size_at grad 3;
          E = size_at keys 3;
          grad_queries = zeros_like queries;
          grad_keys = zeros_like keys;
          threads = 32 * 32;
          lblocks = ceildiv L 32;
          eblocks = ceildiv E 32;
          blocks = N * H * lblocks * eblocks;
          shared_mem = 32 * 32 * 3 * 4;
          strides = \<lparr>dim_x = H * lblocks * eblocks, dim_y = lblocks * eblocks, dim_z = eblocks\<rparr>
      in (local_copy_scaled blocks threads shared_mem grad keys grad_queries strides,
          local_copy_scaled_transpose blocks threads shared_mem grad queries grad_keys strides
            IncreasingLK))"

definition local_weighted_average :: "real tensor \<Rightarrow> real tensor \<Rightarrow> real tensor" where
  "local_weighted_average attention values =
     (let N = size_at attention 0;
          H = size_at attention 1;
          L = size_at attention 2;
          K = size_at attention 3;
          E = size_at values 3;
          output = zeros_like values;
          threads = 32 * 32;
          lblocks = ceildiv L 32;
          eblocks = ceildiv E 32;
          blocks = N * H * lblocks * eblocks;
          shared_mem = 32 * 32 * 3 * 4;
          strides = \<lparr>dim_x = H * lblocks * eblocks, dim_y = lblocks * eblocks, dim_z = eblocks\<rparr>
      in local_copy_scaled blocks threads shared_mem attention values output strides)"

definition local_weighted_average_backward ::
  "real tensor \<Rightarrow> real tensor \<Rightarrow> real tensor \<Rightarrow> real tensor \<times> real tensor" where
  "local_weighted_average_backward attention values grad =
     (let N = size_at attention 0;
          H = size_at attention 1;
          L = size_at attention 2;
          local_context = size_at attention 3;
          S = size_at values 2;
          E = size_at values 3;
          grad_attention = zeros_like attention;
          grad_values = zeros_like values;
          grad_values =
            (let threads = 32 * 32;
                 lblocks = ceildiv L 32;
                 eblocks = ceildiv E 32;
                 blocks = N * H * lblocks * eblocks;
                 shared_mem = 32 * 32 * 3 * 4;
                 strides = \<lparr>dim_x = H * lblocks * eblocks, dim_y = lblocks * eblocks,
                            dim_z = eblocks\<rparr>
             in local_copy_scaled_transpose blocks threads shared_mem attention grad grad_values
                  strides ReverseLK);
          grad_attention =
            view (sliding_dot lp_copy
                    (view grad [N * H, L, E])
                    (view values [N * H, L, E])
                    (view grad_attention [N * H, L, local_context])
                    local_context)
                 [N, H, L, local_context]
      in (grad_attention, grad_values))"

subsection \<open>A common form of the two copy implementations\<close>

text \<open>
  \<^verbatim>\<open>masked_lp_copy\<close> and \<^verbatim>\<open>lp_copy\<close> differ only in the value they store.
  \<open>select_copy g\<close> is their common text, with the value stored for the buffer entry \<open>v\<close>
  at the query position \<open>l\<close> and the key position \<open>s\<close> given as \<open>g v l s\<close>; the two are
  shown below to be instances of it.
\<close>

definition select_copy ::
  "(real \<Rightarrow> int \<Rightarrow> int \<Rightarrow> 'a) \<Rightarrow> cuda_thread \<Rightarrow> real tensor \<Rightarrow> 'a tensor \<Rightarrow> int \<Rightarrow> int \<Rightarrow> int \<Rightarrow> int \<Rightarrow> int
     \<Rightarrow> 'a tensor" where
  "select_copy g th buffer output local_context l_start s_start buffer_dim12 buffer_dim2 =
     (let idx = blockIdx_x th * blockDim_x th + threadIdx_x th;
          n = idx sdiv buffer_dim12;
          idx = idx - n * buffer_dim12;
          l_offset = idx sdiv buffer_dim2;
          idx = idx - l_offset * buffer_dim2;
          s_offset = idx
      in if n \<ge> size_at buffer 0 then output
         else
           let l = l_start + l_offset;
               s = s_start + s_offset;
               k = s - l + local_context sdiv 2
           in if k < 0 \<or> k \<ge> local_context then output
              else output\<lparr>elems := (elems output)
                     ([n, l, k] := g (elems buffer [n, l_offset, s_offset]) l s)\<rparr>)"

subsection \<open>The dense reference of the specification\<close>

text \<open>
  These two definitions follow the words of the specification, not the code: the full dense
  score matrix \<open>Q K\<^sup>T + mask\<close>, and the entries of it that are kept when every entry
  with \<open>|l - s| \<ge> C/2\<close> is discarded.
\<close>

definition dense_scores :: "real tensor \<Rightarrow> real tensor \<Rightarrow> xfloat tensor \<Rightarrow> xfloat tensor" where
  "dense_scores queries keys attn_mask' =
     \<lparr>sizes = [size_at queries 0, size_at queries 1, size_at queries 2, size_at keys 2],
      elems = (\<lambda>ix. xadd (Fin (dot (size_at queries 3)
                                     (\<lambda>e. elems queries [ix ! 0, ix ! 1, ix ! 2, e])
                                     (\<lambda>e. elems keys [ix ! 0, ix ! 1, ix ! 3, e])))
                         (elems attn_mask' [ix ! 2, ix ! 3]))\<rparr>"

definition dense_kept :: "int \<Rightarrow> int \<Rightarrow> int \<Rightarrow> bool" where
  "dense_kept C l s = (\<bar>l - s\<bar> < C div 2)"

section \<open>Proofs\<close>

subsection \<open>Folds and launches\<close>

lemma fold_invariant:
  "(\<And>t s. t \<in> set ts \<Longrightarrow> P s \<Longrightarrow> P (f t s)) \<Longrightarrow> P s \<Longrightarrow> P (fold f ts s)"
  by (induction ts arbitrary: s) auto

lemma fold_establish:
  assumes "t0 \<in> set ts" and "\<And>s. P (f t0 s)" and "\<And>t s. t \<in> set ts \<Longrightarrow> P s \<Longrightarrow> P (f t s)"
  shows "P (fold f ts s)"
  using assms
proof (induction ts arbitrary: s)
  case Nil
  then show ?case by simp
next
  case (Cons a ts)
  show ?case
  proof (cases "a = t0")
    case True
    have "P (f a s)" using True Cons.prems(2) by simp
    then have "P (fold f ts (f a s))"
      by (rule fold_invariant[rotated]) (simp add: Cons.prems(3))
    then show ?thesis by simp
  next
    case False
    then have "t0 \<in> set ts" using Cons.prems(1) by simp
    then have "P (fold f ts (f a s))"
      by (rule Cons.IH) (simp_all add: Cons.prems)
    then show ?thesis by simp
  qed
qed

lemma launch_invariant:
  assumes "\<And>b t s. 0 \<le> b \<Longrightarrow> b < blocks \<Longrightarrow> 0 \<le> t \<Longrightarrow> t < threads \<Longrightarrow> P s
             \<Longrightarrow> P (body \<lparr>blockIdx_x = b, blockDim_x = threads, threadIdx_x = t\<rparr> s)"
    and "P s"
  shows "P (launch blocks threads body s)"
  unfolding launch_def
  by (rule fold_invariant, rule fold_invariant) (simp_all add: assms)

lemma launch_establish:
  assumes "0 \<le> b" "b < blocks" "0 \<le> t" "t < threads"
    and "\<And>s. P (body \<lparr>blockIdx_x = b, blockDim_x = threads, threadIdx_x = t\<rparr> s)"
    and "\<And>b t s. 0 \<le> b \<Longrightarrow> b < blocks \<Longrightarrow> 0 \<le> t \<Longrightarrow> t < threads \<Longrightarrow> P s
             \<Longrightarrow> P (body \<lparr>blockIdx_x = b, blockDim_x = threads, threadIdx_x = t\<rparr> s)"
  shows "P (launch blocks threads body s)"
  unfolding launch_def
proof (rule fold_establish[where ?t0.0 = b])
  show "b \<in> set [0..blocks - 1]" using assms by simp
  show "P (fold (\<lambda>t. body \<lparr>blockIdx_x = b, blockDim_x = threads, threadIdx_x = t\<rparr>) [0..threads - 1] s)" for s
    by (rule fold_establish[where ?t0.0 = t]) (use assms in simp_all)
  show "P (fold (\<lambda>t. body \<lparr>blockIdx_x = b', blockDim_x = threads, threadIdx_x = t\<rparr>) [0..threads - 1] s)"
    if "P s" "b' \<in> set [0..blocks - 1]" for b' s
    by (rule fold_invariant) (use assms that in simp_all)
qed

subsection \<open>The threads of the copy kernel\<close>

text \<open>
  For non-negative operands the truncating division is the flooring one. With it, the flat
  thread index of the copy kernel splits into \<open>(n, l_offset, s_offset)\<close>, and every triple
  inside the buffer is the split of one index.
\<close>

lemma sdiv_nonneg: "0 \<le> a \<Longrightarrow> 0 \<le> b \<Longrightarrow> a sdiv b = a div (b::int)"
  by (simp add: signed_divide_int_def sgn_if)

lemma elems_buff:
  "elems (matmul (narrow A (Suc 0) l n_a) (transpose12 (narrow B (Suc 0) s n_b))) [n, i, j]
     = dot (sizes A ! 2) (\<lambda>e. elems A [n, i + l, e]) (\<lambda>e. elems B [n, j + s, e])"
  by (simp add: matmul_def narrow_def transpose12_def size_at_def)

lemma sizes_buff:
  "length (sizes A) = 3 \<Longrightarrow> length (sizes B) = 3 \<Longrightarrow> sizes (matmul (narrow A (Suc 0) l n_a) (transpose12 (narrow B (Suc 0) s n_b)))
     = [sizes A ! 0, n_a, n_b]"
  by (simp add: matmul_def narrow_def transpose12_def size_at_def)

lemma masked_lp_copy_select:
  "masked_lp_copy_call self = select_copy (\<lambda>v l s. xadd (Fin v) (elems (attn_mask self) [l, s]))"
  by (intro ext) (simp add: masked_lp_copy_call_def select_copy_def Let_def)

lemma lp_copy_select: "lp_copy = select_copy (\<lambda>v l s. v)"
  by (intro ext) (simp add: lp_copy_def select_copy_def Let_def)

lemma select_copy_thread:
  assumes "0 \<le> b" "0 \<le> t" "0 \<le> threads" "0 < d2" "0 < na" "0 \<le> C"
  shows "select_copy g \<lparr>blockIdx_x = b, blockDim_x = threads, threadIdx_x = t\<rparr> buffer output C l0 s0 (na * d2) d2 =
     (let idx = b * threads + t; n = idx div (na * d2); r = idx mod (na * d2);
          lo = r div d2; so = r mod d2; k = s0 + so - (l0 + lo) + C div 2
      in if n \<ge> size_at buffer 0 \<or> k < 0 \<or> k \<ge> C then output
         else output\<lparr>elems := (elems output)([n, l0 + lo, k] := g (elems buffer [n, lo, so]) (l0 + lo) (s0 + so))\<rparr>)"
proof -
  have i: "0 \<le> b * threads + t" using assms by simp
  have d: "0 < na * d2" using assms by simp
  have r: "0 \<le> (b * threads + t) mod (na * d2)" using d by simp
  show ?thesis
    using i d r assms(4,6)
    by (simp add: select_copy_def Let_def sdiv_nonneg minus_div_mult_eq_mod)
qed

lemma idx_decomp_bounds:
  fixes idx :: int
  assumes "0 \<le> idx" "0 < d2" "0 < na"
  shows "0 \<le> idx div (na * d2)"
    and "0 \<le> (idx mod (na * d2)) div d2"
    and "(idx mod (na * d2)) div d2 < na"
    and "0 \<le> (idx mod (na * d2)) mod d2"
    and "(idx mod (na * d2)) mod d2 < d2"
proof -
  have d: "0 < na * d2" using assms by simp
  show "0 \<le> idx div (na * d2)" using assms d by (simp add: pos_imp_zdiv_nonneg_iff)
  have r: "0 \<le> idx mod (na * d2)" "idx mod (na * d2) < na * d2" using d by simp_all
  show "0 \<le> (idx mod (na * d2)) div d2" using r assms by (simp add: pos_imp_zdiv_nonneg_iff)
  show "(idx mod (na * d2)) div d2 < na"
  proof (rule ccontr)
    assume "\<not> (idx mod (na * d2)) div d2 < na"
    then have "na * d2 \<le> ((idx mod (na * d2)) div d2) * d2"
      using assms(2) by (intro mult_right_mono) simp_all
    also have "\<dots> \<le> idx mod (na * d2)"
      using div_mult_mod_eq[of "idx mod (na * d2)" d2] pos_mod_sign[OF assms(2), of "idx mod (na * d2)"]
      by linarith
    finally show False using r by simp
  qed
  show "0 \<le> (idx mod (na * d2)) mod d2" "(idx mod (na * d2)) mod d2 < d2" using assms by simp_all
qed

lemma div_mod_offset:
  fixes n :: int
  assumes "0 \<le> r" "r < d"
  shows "(n * d + r) div d = n" and "(n * d + r) mod d = r"
  using assms by auto

lemma idx_compose:
  fixes n :: int
  assumes "0 \<le> lo" "lo < na" "0 \<le> so" "so < d2"
  shows "(n * (na * d2) + (lo * d2 + so)) div (na * d2) = n"
    and "(n * (na * d2) + (lo * d2 + so)) mod (na * d2) = lo * d2 + so"
    and "(lo * d2 + so) div d2 = lo"
    and "(lo * d2 + so) mod d2 = so"
proof -
  have a: "0 \<le> lo * d2 + so" using assms by simp
  have "lo * d2 + so < (lo + 1) * d2" using assms by (simp add: algebra_simps)
  also have "\<dots> \<le> na * d2" using assms by (intro mult_right_mono) simp_all
  finally have b: "lo * d2 + so < na * d2" .
  show "(n * (na * d2) + (lo * d2 + so)) div (na * d2) = n" using a b by (rule div_mod_offset)
  show "(n * (na * d2) + (lo * d2 + so)) mod (na * d2) = lo * d2 + so" using a b by (rule div_mod_offset)
  show "(lo * d2 + so) div d2 = lo" using assms by (simp add: div_mod_offset)
  show "(lo * d2 + so) mod d2 = so" using assms by (simp add: div_mod_offset)
qed

subsection \<open>What the sliding dot product leaves in each cell\<close>

text \<open>
  One chunk: the launch of the copy kernel writes the band cells of the rows of the chunk
  whose key is in the sequence, each with the buffer entry of its query and key, and leaves
  every other cell as it was. The loop then does so for all rows.
\<close>

lemma scratch_buffer_fits:
  assumes "0 \<le> C" "0 \<le> l" "l < L"
  shows "0 < min (L - l) a_blocks" and "min (L - l) a_blocks \<le> a_blocks"
    and "l + min (L - l) a_blocks \<le> L"
    and "0 < min L (l - C sdiv 2 + C + a_blocks) - max 0 (l - C sdiv 2)"
    and "min L (l - C sdiv 2 + C + a_blocks) - max 0 (l - C sdiv 2) \<le> a_blocks + C"
    and "0 \<le> max 0 (l - C sdiv 2)"
    and "max 0 (l - C sdiv 2) + (min L (l - C sdiv 2 + C + a_blocks) - max 0 (l - C sdiv 2)) \<le> L"
proof -
  have half: "C sdiv 2 = C div 2" "0 \<le> C div 2" "C div 2 \<le> C"
    using assms(1) by (simp_all add: sdiv_nonneg)
  show "0 < min (L - l) a_blocks" "min (L - l) a_blocks \<le> a_blocks"
    "l + min (L - l) a_blocks \<le> L"
    using assms by (simp_all add: a_blocks_def)
  show "0 < min L (l - C sdiv 2 + C + a_blocks) - max 0 (l - C sdiv 2)"
    "min L (l - C sdiv 2 + C + a_blocks) - max 0 (l - C sdiv 2) \<le> a_blocks + C"
    "0 \<le> max 0 (l - C sdiv 2)"
    "max 0 (l - C sdiv 2) + (min L (l - C sdiv 2 + C + a_blocks) - max 0 (l - C sdiv 2)) \<le> L"
    unfolding half using assms half(2,3) by (simp_all add: a_blocks_def)
qed

lemma ceildiv_covers:
  assumes "0 \<le> i" "i < m"
  shows "i div 1024 < ceildiv m 1024"
proof -
  have "i div 1024 \<le> (m - 1) div 1024" using assms by (intro zdiv_mono1) simp_all
  also have "\<dots> < (m - 1 + 1024) div 1024" by simp
  finally show ?thesis using assms by (simp add: ceildiv_def sdiv_nonneg)
qed

lemma sliding_dot_chunk_cell:
  fixes A B :: "real tensor" and out :: "'a tensor"
  assumes A: "sizes A = [N, L, E]" and B: "length (sizes B) = 3"
    and C: "0 \<le> C" and l0: "0 \<le> l0" "l0 < L"
  shows "elems (sliding_dot_chunk (select_copy g) A B C l0 out) [n, l, k] =
     (if 0 \<le> n \<and> n < N \<and> l0 \<le> l \<and> l < l0 + a_blocks \<and> l < L \<and> 0 \<le> k \<and> k < C
          \<and> 0 \<le> l - C div 2 + k \<and> l - C div 2 + k < L
      then g (dot E (\<lambda>e. elems A [n, l, e]) (\<lambda>e. elems B [n, l - C div 2 + k, e])) l (l - C div 2 + k)
      else elems out [n, l, k])"
proof -
  define s_start where "s_start = max 0 (l0 - C div 2)"
  define s_end where "s_end = min L (l0 - C div 2 + C + a_blocks)"
  define n_b where "n_b = s_end - s_start"
  define n_a where "n_a = min (L - l0) a_blocks"
  define buff where "buff = matmul (narrow A (Suc 0) l0 n_a) (transpose12 (narrow B (Suc 0) s_start n_b))"
  define body where "body = (\<lambda>th output. select_copy g th buff output C l0 s_start (n_a * n_b) n_b)"
  define val where "val = (\<lambda>n l s. g (dot E (\<lambda>e. elems A [n, l, e]) (\<lambda>e. elems B [n, s, e])) l s)"
  have half: "C div 2 \<le> C" "0 \<le> C div 2" using C by simp_all
  have na: "0 < n_a" using l0 by (simp add: n_a_def a_blocks_def)
  have nb: "0 < n_b" using l0 C half by (simp add: n_b_def s_end_def s_start_def a_blocks_def)
  have szb: "sizes buff = [N, n_a, n_b]" using A B by (simp add: buff_def sizes_buff)
  have chunk: "sliding_dot_chunk (select_copy g) A B C l0 out
      = launch (ceildiv (N * (n_a * n_b)) 1024) 1024 body out"
    using C szb
    by (simp add: sliding_dot_chunk_def Let_def sdiv_nonneg A size_at_def numel_def body_def
        flip: s_start_def s_end_def n_b_def n_a_def buff_def)
  have rng: "n_a \<le> a_blocks" "l0 + n_a \<le> L" "0 \<le> s_start" "s_start + n_b \<le> L"
    by (simp_all add: n_a_def n_b_def s_start_def s_end_def)
  define tn where "tn = (\<lambda>b t. (b * 1024 + t) div (n_a * n_b))"
  define tlo where "tlo = (\<lambda>b t. (b * 1024 + t) mod (n_a * n_b) div n_b)"
  define tso where "tso = (\<lambda>b t. (b * 1024 + t) mod (n_a * n_b) mod n_b)"
  define tk where "tk = (\<lambda>b t. s_start + tso b t - (l0 + tlo b t) + C div 2)"
  have tb: "0 \<le> tn b t" "0 \<le> tlo b t" "tlo b t < n_a" "0 \<le> tso b t" "tso b t < n_b"
    if "0 \<le> b" "0 \<le> t" for b t
  proof -
    have i0: "0 \<le> b * 1024 + t" using that by simp
    show "0 \<le> tn b t" "0 \<le> tlo b t" "tlo b t < n_a" "0 \<le> tso b t" "tso b t < n_b"
      unfolding tn_def tlo_def tso_def by (rule idx_decomp_bounds[OF i0 nb na])+
  qed
  have thread: "body \<lparr>blockIdx_x = b, blockDim_x = 1024, threadIdx_x = t\<rparr> st =
          (if tn b t \<ge> N \<or> tk b t < 0 \<or> tk b t \<ge> C then st
           else st\<lparr>elems := (elems st)([tn b t, l0 + tlo b t, tk b t]
                       := val (tn b t) (l0 + tlo b t) (s_start + tso b t))\<rparr>)"
    if "0 \<le> b" "0 \<le> t" for b t st
    unfolding body_def tn_def tlo_def tso_def tk_def
    by (subst select_copy_thread) (use that na nb C A szb in
         \<open>simp_all add: Let_def val_def buff_def elems_buff size_at_def add.commute\<close>)
  show ?thesis
  proof (cases "0 \<le> n \<and> n < N \<and> l0 \<le> l \<and> l < l0 + a_blocks \<and> l < L \<and> 0 \<le> k \<and> k < C
          \<and> 0 \<le> l - C div 2 + k \<and> l - C div 2 + k < L")
    case True
    define s where "s = l - C div 2 + k"
    define lo where "lo = l - l0"
    define so where "so = s - s_start"
    define i where "i = n * (n_a * n_b) + (lo * n_b + so)"
    have lo: "0 \<le> lo" "lo < n_a" using True by (simp_all add: lo_def n_a_def)
    have "s_start \<le> s" "s < s_end" using True half
      by (simp_all add: s_def s_start_def s_end_def)
    then have so: "0 \<le> so" "so < n_b" by (simp_all add: so_def n_b_def)
    have r: "0 \<le> lo * n_b + so" using lo so by simp
    have "lo * n_b + so < (lo + 1) * n_b" using so by (simp add: algebra_simps)
    also have "\<dots> \<le> n_a * n_b" using lo nb by (intro mult_right_mono) simp_all
    finally have r2: "lo * n_b + so < n_a * n_b" .
    have i0: "0 \<le> i" using True r na nb by (simp add: i_def)
    have "i < (n + 1) * (n_a * n_b)" using r2 by (simp add: i_def algebra_simps)
    also have "\<dots> \<le> N * (n_a * n_b)" using True na nb by (intro mult_right_mono) simp_all
    finally have i1: "i < N * (n_a * n_b)" .
    have P: "elems (launch (ceildiv (N * (n_a * n_b)) 1024) 1024 body out) [n, l, k] = val n l s"
    proof (rule launch_establish[where b = "i div 1024" and t = "i mod 1024"
            and P = "\<lambda>st. elems st [n, l, k] = val n l s"])
      show "0 \<le> i div 1024" using i0 by (simp add: pos_imp_zdiv_nonneg_iff)
      show "i div 1024 < ceildiv (N * (n_a * n_b)) 1024" using i0 i1 by (rule ceildiv_covers)
      show "0 \<le> i mod 1024" "i mod 1024 < 1024" by simp_all
      show "elems (body \<lparr>blockIdx_x = i div 1024, blockDim_x = 1024, threadIdx_x = i mod 1024\<rparr> st) [n, l, k]
              = val n l s" for st
      proof -
        have e: "i div 1024 * 1024 + i mod 1024 = i" by simp
        have id: "0 \<le> i div 1024" "0 \<le> i mod 1024" using i0 by (simp_all add: pos_imp_zdiv_nonneg_iff)
        have "tn (i div 1024) (i mod 1024) = n"
          unfolding tn_def e using idx_compose(1)[OF lo so, of n] by (simp add: i_def)
        moreover have m: "i mod (n_a * n_b) = lo * n_b + so"
          using idx_compose(2)[OF lo so, of n] by (simp add: i_def)
        have "tlo (i div 1024) (i mod 1024) = lo"
          unfolding tlo_def e m using idx_compose(3)[OF lo so] by simp
        moreover have "tso (i div 1024) (i mod 1024) = so"
          unfolding tso_def e m using idx_compose(4)[OF lo so] by simp
        moreover have "l0 + lo = l" "s_start + so = s" "s - l + C div 2 = k"
          by (simp_all add: lo_def so_def s_def)
        ultimately show ?thesis
          using True by (simp add: thread[OF id] tk_def)
      qed
      show "elems (body \<lparr>blockIdx_x = b, blockDim_x = 1024, threadIdx_x = t\<rparr> st) [n, l, k] = val n l s"
        if prem: "0 \<le> b" "0 \<le> t" "elems st [n, l, k] = val n l s" for b t st
      proof -
        have "s_start + tso b t = s" if "l0 + tlo b t = l" "tk b t = k"
          using that by (simp add: s_def tk_def)
        then show ?thesis using prem by (auto simp: thread)
      qed
    qed
    show ?thesis using True P by (simp add: chunk val_def s_def)
  next
    case False
    have P: "elems (launch (ceildiv (N * (n_a * n_b)) 1024) 1024 body out) [n, l, k] = elems out [n, l, k]"
    proof (rule launch_invariant[where P = "\<lambda>st. elems st [n, l, k] = elems out [n, l, k]"])
      show "elems (body \<lparr>blockIdx_x = b, blockDim_x = 1024, threadIdx_x = t\<rparr> st) [n, l, k] = elems out [n, l, k]"
        if prem: "0 \<le> b" "0 \<le> t" "elems st [n, l, k] = elems out [n, l, k]" for b t st
      proof -
        have ne: "[n, l, k] \<noteq> [tn b t, l0 + tlo b t, tk b t]"
          if w: "tn b t < N" "0 \<le> tk b t" "tk b t < C"
        proof
          assume "[n, l, k] = [tn b t, l0 + tlo b t, tk b t]"
          then have eq: "tn b t = n" "l0 + tlo b t = l" "s_start + tso b t - (l0 + tlo b t) + C div 2 = k"
            by (simp_all add: tk_def)
          have "0 \<le> n" "n < N" "l0 \<le> l" "l < l0 + a_blocks" "l < L" "0 \<le> k" "k < C"
            "0 \<le> l - C div 2 + k" "l - C div 2 + k < L"
            using w tb[OF prem(1,2)] rng eq unfolding tk_def by linarith+
          then show False using False by simp
        qed
        show ?thesis
        proof (cases "tn b t \<ge> N \<or> tk b t < 0 \<or> tk b t \<ge> C")
          case True
          then show ?thesis using prem by (simp add: thread)
        next
          case nw: False
          then have "[n, l, k] \<noteq> [tn b t, l0 + tlo b t, tk b t]"
            by (intro ne) simp_all
          then show ?thesis using prem nw by (auto simp: thread)
        qed
      qed
    qed simp
    show ?thesis by (subst if_not_P[OF False]) (simp add: chunk P)
  qed
qed

lemma sliding_dot_loop_cell:
  fixes A B :: "real tensor" and out :: "'a tensor"
  assumes A: "sizes A = [N, L, E]" and B: "length (sizes B) = 3"
    and C: "0 \<le> C" and l0: "0 \<le> l0" and cp: "cp = select_copy g"
  shows "elems (sliding_dot_loop cp A B C l0 out) [n, l, k] =
     (if 0 \<le> n \<and> n < N \<and> l0 \<le> l \<and> l < L \<and> 0 \<le> k \<and> k < C
          \<and> 0 \<le> l - C div 2 + k \<and> l - C div 2 + k < L
      then g (dot E (\<lambda>e. elems A [n, l, e]) (\<lambda>e. elems B [n, l - C div 2 + k, e])) l (l - C div 2 + k)
      else elems out [n, l, k])"
  using assms
proof (induction cp A B C l0 out rule: sliding_dot_loop.induct)
  case (1 cp A B C l0 out)
  have L: "size_at A 1 = L" using "1.prems"(1) by (simp add: size_at_def)
  show ?case
  proof (cases "l0 < L")
    case True
    have "elems (sliding_dot_loop cp A B C l0 out) [n, l, k]
        = elems (sliding_dot_loop cp A B C (l0 + a_blocks) (sliding_dot_chunk cp A B C l0 out)) [n, l, k]"
      using True L by (subst sliding_dot_loop.simps) simp
    also have "\<dots> = (if 0 \<le> n \<and> n < N \<and> l0 + a_blocks \<le> l \<and> l < L \<and> 0 \<le> k \<and> k < C
          \<and> 0 \<le> l - C div 2 + k \<and> l - C div 2 + k < L
      then g (dot E (\<lambda>e. elems A [n, l, e]) (\<lambda>e. elems B [n, l - C div 2 + k, e])) l (l - C div 2 + k)
      else elems (sliding_dot_chunk cp A B C l0 out) [n, l, k])"
      using True L "1.prems" by (intro "1.IH") (simp_all add: a_blocks_def)
    also have "\<dots> = (if 0 \<le> n \<and> n < N \<and> l0 \<le> l \<and> l < L \<and> 0 \<le> k \<and> k < C
          \<and> 0 \<le> l - C div 2 + k \<and> l - C div 2 + k < L
      then g (dot E (\<lambda>e. elems A [n, l, e]) (\<lambda>e. elems B [n, l - C div 2 + k, e])) l (l - C div 2 + k)
      else elems out [n, l, k])"
      unfolding "1.prems"(5)
      by (subst sliding_dot_chunk_cell[OF "1.prems"(1,2,3,4) True]) (auto simp: a_blocks_def)
    finally show ?thesis .
  next
    case False
    then show ?thesis using L by (subst sliding_dot_loop.simps) auto
  qed
qed

subsection \<open>Views\<close>

text \<open>
  Merging the batch and the head dimension, and splitting them again, on the entries:
  \<open>[b, l, e]\<close> of the rank-3 view is \<open>[b div H, b mod H, l, e]\<close> of the tensor.
\<close>

lemma dot_cong:
  assumes "\<And>e. 0 \<le> e \<Longrightarrow> e < E \<Longrightarrow> u e = u' e" and "\<And>e. 0 \<le> e \<Longrightarrow> e < E \<Longrightarrow> v e = v' e"
  shows "dot E u v = dot E u' v'"
  unfolding dot_def by (rule arg_cong[where f = sum_list], rule map_cong) (simp_all add: assms)

lemma split_batch:
  fixes b :: int
  assumes "0 \<le> r" "r < M" "0 \<le> H"
  shows "(b * M + r) div (H * M) = b div H"
    and "(b * M + r) mod (H * M) div M = b mod H"
    and "(b * M + r) mod (H * M) mod M = r"
proof -
  have d: "(b * M + r) div M = b" and m: "(b * M + r) mod M = r"
    using assms div_mod_offset[of r M b] by simp_all
  show "(b * M + r) div (H * M) = b div H"
    using zdiv_zmult2_eq[OF assms(3), of "b * M + r" M] d by (simp add: mult.commute)
  have "(b * M + r) mod (M * H) = M * (b mod H) + r"
    using zmod_zmult2_eq[OF assms(3), of "b * M + r" M] d m by simp
  then have e: "(b * M + r) mod (H * M) = (b mod H) * M + r" by (simp add: mult.commute)
  show "(b * M + r) mod (H * M) div M = b mod H"
    unfolding e using div_mod_offset(1)[OF assms(1,2)] by simp
  show "(b * M + r) mod (H * M) mod M = r"
    unfolding e using div_mod_offset(2)[OF assms(1,2)] by simp
qed

lemma view_merge_batch:
  assumes "sizes t = [N, H, L, E]" "0 \<le> H" "0 \<le> l" "l < L" "0 \<le> e" "e < E"
  shows "elems (view t [N * H, L, E]) [b, l, e] = elems t [b div H, b mod H, l, e]"
proof -
  have r: "0 \<le> l * E + e" using assms by simp
  have "l * E + e < (l + 1) * E" using assms by (simp add: algebra_simps)
  also have "\<dots> \<le> L * E" using assms by (intro mult_right_mono) simp_all
  finally have r2: "l * E + e < L * E" .
  note sb = split_batch[OF r r2 assms(2), of b]
  show ?thesis
    using sb div_mod_offset[OF assms(5,6), of l]
    by (simp add: view_def assms(1))
qed

lemma view_split_batch:
  assumes "0 \<le> h" "h < H" "0 \<le> l" "l < L" "0 \<le> k" "k < C"
  shows "elems (view t [N, H, L, C]) [n, h, l, k]
           = elems t (unravel (sizes t) (((n * H + h) * L + l) * C + k))"
  by (simp add: view_def algebra_simps)

lemma unravel3:
  assumes "0 \<le> l" "l < L" "0 \<le> k" "k < C"
  shows "unravel [B, L, C] ((b * L + l) * C + k) = [b, l, k]"
proof -
  have r: "0 \<le> l * C + k" using assms by simp
  have "l * C + k < (l + 1) * C" using assms by (simp add: algebra_simps)
  also have "\<dots> \<le> L * C" using assms by (intro mult_right_mono) simp_all
  finally have r2: "l * C + k < L * C" .
  have e: "(b * L + l) * C + k = b * (L * C) + (l * C + k)" by (simp add: algebra_simps)
  show ?thesis
    unfolding e using div_mod_offset[OF r r2, of b] div_mod_offset[OF assms(3,4), of l]
    by simp
qed

subsection \<open>The sliding dot product on the views of the rank-4 tensors\<close>

lemma select_copy_sizes [simp]:
  "sizes (select_copy g th buffer output C l s d12 d2) = sizes output"
  by (simp add: select_copy_def Let_def)

lemma sliding_dot_chunk_sizes [simp]:
  "sizes (sliding_dot_chunk (select_copy g) A B C l out) = sizes out"
  unfolding sliding_dot_chunk_def Let_def
  by (rule launch_invariant[where P = "\<lambda>st. sizes st = sizes out"]) simp_all

lemma sliding_dot_loop_sizes [simp]:
  "sizes (sliding_dot_loop (select_copy g) A B C l out) = sizes out"
proof (induction "select_copy g :: cuda_thread \<Rightarrow> real tensor \<Rightarrow> 'a tensor \<Rightarrow> int \<Rightarrow> int \<Rightarrow> int \<Rightarrow> int \<Rightarrow> int \<Rightarrow> 'a tensor"
        A B C l out rule: sliding_dot_loop.induct)
  case (1 A B C l out)
  show ?case
    using 1 by (subst sliding_dot_loop.simps) simp
qed

lemma sliding_dot_cell:
  fixes A B :: "real tensor" and out :: "'a tensor"
  assumes "sizes A = [N, L, E]" "length (sizes B) = 3" "0 \<le> C"
  shows "elems (sliding_dot (select_copy g) A B out C) [n, l, k] =
     (if 0 \<le> n \<and> n < N \<and> 0 \<le> l \<and> l < L \<and> 0 \<le> k \<and> k < C
          \<and> 0 \<le> l - C div 2 + k \<and> l - C div 2 + k < L
      then g (dot E (\<lambda>e. elems A [n, l, e]) (\<lambda>e. elems B [n, l - C div 2 + k, e])) l (l - C div 2 + k)
      else elems out [n, l, k])"
  unfolding sliding_dot_def
  by (rule sliding_dot_loop_cell[OF assms]) simp_all

lemma batch_index:
  fixes n :: int
  assumes "0 \<le> n" "n < N" "0 \<le> h" "h < H"
  shows "0 \<le> n * H + h" "n * H + h < N * H" "(n * H + h) div H = n" "(n * H + h) mod H = h"
proof -
  show "0 \<le> n * H + h" using assms by simp
  have "n * H + h < (n + 1) * H" using assms by (simp add: algebra_simps)
  also have "\<dots> \<le> N * H" using assms by (intro mult_right_mono) simp_all
  finally show "n * H + h < N * H" .
  show "(n * H + h) div H = n" "(n * H + h) mod H = h"
    using div_mod_offset[OF assms(3,4), of n] by simp_all
qed


lemma map_upto_shift: "map f [i + 1..j + 1] = map (\<lambda>x. f (x + 1)) [i..j]"
proof (induction i j rule: upto.induct)
  case (1 i j)
  show ?case
  proof (cases "i \<le> j")
    case True
    then show ?thesis using 1 by (simp add: upto_rec1[of i j] upto_rec1[of "i + 1" "j + 1"])
  next
    case False
    then show ?thesis by simp
  qed
qed

lemma sliding_dot_loop_unroll:
  assumes "0 < a_blocks"
  shows "sliding_dot_loop cp A B C l0 out =
     fold (\<lambda>l. sliding_dot_chunk cp A B C l)
          (map (\<lambda>i. l0 + i * a_blocks) [0..(size_at A 1 - 1 - l0) div a_blocks]) out"
proof (induction cp A B C l0 out rule: sliding_dot_loop.induct)
  case (1 cp A B C l0 out)
  define L where "L = size_at A 1"
  show ?case
  proof (cases "l0 < L")
    case True
    define m where "m = (L - 1 - l0) div a_blocks"
    have m0: "0 \<le> m" using True by (simp add: m_def a_blocks_def pos_imp_zdiv_nonneg_iff)
    have m1: "(L - 1 - (l0 + a_blocks)) div a_blocks = m - 1"
      by (simp add: m_def a_blocks_def)
    have "map (\<lambda>i. l0 + i * a_blocks) [0..m] = l0 # map (\<lambda>i. l0 + i * a_blocks) [0 + 1..(m - 1) + 1]"
      using m0 by (simp add: upto_rec1[of 0 m])
    also have "map (\<lambda>i. l0 + i * a_blocks) [0 + 1..(m - 1) + 1]
        = map (\<lambda>i. l0 + a_blocks + i * a_blocks) [0..m - 1]"
      unfolding map_upto_shift by (simp add: algebra_simps)
    finally have e: "map (\<lambda>i. l0 + i * a_blocks) [0..m]
        = l0 # map (\<lambda>i. l0 + a_blocks + i * a_blocks) [0..m - 1]" .
    show ?thesis
      using True "1.IH" unfolding L_def[symmetric] m_def[symmetric] m1 e
      by (subst sliding_dot_loop.simps) (simp add: L_def)
  next
    case False
    then have "(L - 1 - l0) div a_blocks < 0" by (simp add: a_blocks_def)
    then show ?thesis using False unfolding L_def
      by (subst sliding_dot_loop.simps) simp
  qed
qed

lemma banded_view_cell:
  fixes X Y :: "real tensor" and out :: "'a tensor"
  assumes X: "sizes X = [N, H, L, E]" and Y: "sizes Y = [N, H, L, E]" and O: "sizes out = [N, H, L, C]"
    and n: "0 \<le> n" "n < N" and h: "0 \<le> h" "h < H" and l: "0 \<le> l" "l < L" and k: "0 \<le> k" "k < C"
  shows "elems (view (sliding_dot (select_copy g) (view X [N * H, L, E]) (view Y [N * H, L, E])
                        (view out [N * H, L, C]) C) [N, H, L, C]) [n, h, l, k] =
     (if 0 \<le> l - C div 2 + k \<and> l - C div 2 + k < L
      then g (dot E (\<lambda>e. elems X [n, h, l, e]) (\<lambda>e. elems Y [n, h, l - C div 2 + k, e]))
             l (l - C div 2 + k)
      else elems out [n, h, l, k])"
proof -
  define A where "A = view X [N * H, L, E]"
  define B where "B = view Y [N * H, L, E]"
  define out3 where "out3 = view out [N * H, L, C]"
  define R where "R = sliding_dot (select_copy g) A B out3 C"
  have C: "0 \<le> C" using k by simp
  have H: "0 \<le> H" using h by simp
  note bi = batch_index[OF n h]
  have szR: "sizes R = [N * H, L, C]"
    by (simp add: R_def sliding_dot_def out3_def view_def)
  have e1: "elems (view R [N, H, L, C]) [n, h, l, k] = elems R [n * H + h, l, k]"
    using view_split_batch[OF h l k, of R N n] unravel3[OF l k, of "N * H" "n * H + h"]
    by (simp add: szR)
  have e2: "elems R [n * H + h, l, k] = (if 0 \<le> l - C div 2 + k \<and> l - C div 2 + k < L
      then g (dot E (\<lambda>e. elems A [n * H + h, l, e]) (\<lambda>e. elems B [n * H + h, l - C div 2 + k, e]))
             l (l - C div 2 + k)
      else elems out3 [n * H + h, l, k])"
    unfolding R_def
    by (subst sliding_dot_cell[where N = "N * H" and L = L and E = E])
       (use bi l k C in \<open>simp_all add: A_def B_def view_def\<close>)
  have e3: "elems out3 [n * H + h, l, k] = elems out [n, h, l, k]"
    unfolding out3_def using h by (simp add: view_merge_batch[OF O H l k] bi)
  have e4: "dot E (\<lambda>e. elems A [n * H + h, l, e]) (\<lambda>e. elems B [n * H + h, l - C div 2 + k, e])
      = dot E (\<lambda>e. elems X [n, h, l, e]) (\<lambda>e. elems Y [n, h, l - C div 2 + k, e])"
    if "0 \<le> l - C div 2 + k" "l - C div 2 + k < L"
    unfolding A_def B_def
    by (rule dot_cong)
       (use h in \<open>simp_all add: view_merge_batch[OF X H l] view_merge_batch[OF Y H that] bi\<close>)
  show ?thesis
  proof (cases "0 \<le> l - C div 2 + k \<and> l - C div 2 + k < L")
    case True
    then show ?thesis using e4 by (simp add: e1 e2 flip: R_def A_def B_def out3_def)
  next
    case False
    then show ?thesis
      unfolding R_def[symmetric] A_def[symmetric] B_def[symmetric] out3_def[symmetric] e1 e2 e3
      by (simp only: if_False)
  qed
qed

lemma local_dot_product_cell:
  assumes Q: "sizes queries = [N, H, L, E]" and K: "sizes keys = [N, H, L, E]"
    and n: "0 \<le> n" "n < N" and h: "0 \<le> h" "h < H" and l: "0 \<le> l" "l < L" and k: "0 \<le> k" "k < C"
  shows "elems (local_dot_product queries keys attn_mask' key_lengths' C) [n, h, l, k] =
     (if 0 \<le> l - C div 2 + k \<and> l - C div 2 + k < L
      then xadd (Fin (dot E (\<lambda>e. elems queries [n, h, l, e])
                            (\<lambda>e. elems keys [n, h, l - C div 2 + k, e])))
                (elems attn_mask' [l, l - C div 2 + k])
      else NegInf)"
proof -
  have sz: "size_at queries 0 = N" "size_at queries (Suc 0) = H" "size_at queries 2 = L" "size_at queries 3 = E"
    using Q by (simp_all add: size_at_def)
  have O: "sizes \<lparr>sizes = [N, H, L, C], elems = (\<lambda>_. NegInf)\<rparr> = [N, H, L, C]" by simp
  show ?thesis
    unfolding local_dot_product_def Let_def masked_lp_copy_select masked_lp_copy_factory_def
    by (simp add: sz banded_view_cell[OF Q K O n h l k] new_full_def)
qed

lemma grad_attention_cell:
  assumes A: "sizes attention = [N, H, L, C]" and V: "sizes values = [N, H, L, E]"
    and G: "sizes grad = [N, H, L, E]"
    and n: "0 \<le> n" "n < N" and h: "0 \<le> h" "h < H" and l: "0 \<le> l" "l < L" and k: "0 \<le> k" "k < C"
  shows "elems (fst (local_weighted_average_backward attention values grad)) [n, h, l, k] =
     (if 0 \<le> l - C div 2 + k \<and> l - C div 2 + k < L
      then dot E (\<lambda>e. elems grad [n, h, l, e]) (\<lambda>e. elems values [n, h, l - C div 2 + k, e])
      else 0)"
proof -
  have sz: "size_at attention 0 = N" "size_at attention (Suc 0) = H" "size_at attention 2 = L"
    "size_at attention 3 = C" "size_at values 3 = E"
    using A V by (simp_all add: size_at_def)
  have O: "sizes \<lparr>sizes = [N, H, L, C], elems = (\<lambda>_. 0::real)\<rparr> = [N, H, L, C]" by simp
  show ?thesis
    unfolding local_weighted_average_backward_def Let_def lp_copy_select
    by (simp add: sz A banded_view_cell[OF G V O n h l k] zeros_like_def)
qed

subsection \<open>What the tiled kernels add to each cell\<close>

lemma fold_unchanged:
  "(\<And>t s. t \<in> set ts \<Longrightarrow> Q (f t s) = Q s) \<Longrightarrow> Q (fold f ts s) = Q s"
  by (induction ts arbitrary: s) auto

lemma fold_single_add:
  fixes Q :: "'s \<Rightarrow> real"
  assumes "distinct ts" and "t0 \<in> set ts"
    and "\<And>t s. t \<in> set ts \<Longrightarrow> t \<noteq> t0 \<Longrightarrow> Q (f t s) = Q s"
    and "\<And>s. Q (f t0 s) = Q s + d"
  shows "Q (fold f ts s) = Q s + d"
  using assms(1,2,3)
proof (induction ts arbitrary: s)
  case Nil
  then show ?case by simp
next
  case (Cons a ts)
  show ?case
  proof (cases "a = t0")
    case True
    then have "t0 \<notin> set ts" using Cons.prems(1) by simp
    then have "Q (fold f ts (f a s)) = Q (f a s)"
      by (intro fold_unchanged Cons.prems(3)) auto
    then show ?thesis using True assms(4) by simp
  next
    case False
    then have "Q (fold f ts (f a s)) = Q (f a s) + d"
      using Cons.prems by (intro Cons.IH) auto
    moreover have "Q (f a s) = Q s" using False by (intro Cons.prems(3)) auto
    ultimately show ?thesis by simp
  qed
qed

lemma tile_loop_other:
  assumes "\<And>k t sh out. 0 \<le> t \<Longrightarrow> t < threads \<Longrightarrow>
      elems (compute k \<lparr>blockIdx_x = b, blockDim_x = threads, threadIdx_x = t\<rparr> sh out) c = elems out c"
  shows "elems (snd (tile_loop load compute C b threads k0 (sh, out))) c = elems out c"
proof (induction "nat (C - k0)" arbitrary: k0 sh out rule: less_induct)
  case less
  show ?case
  proof (cases "k0 < C")
    case True
    define sh' where "sh' = fold (\<lambda>t. load k0 \<lparr>blockIdx_x = b, blockDim_x = threads, threadIdx_x = t\<rparr>)
                   [0..threads - 1] sh"
    define out' where "out' = fold (\<lambda>t. compute k0 \<lparr>blockIdx_x = b, blockDim_x = threads, threadIdx_x = t\<rparr> sh')
                   [0..threads - 1] out"
    have step: "tile_loop load compute C b threads k0 (sh, out)
        = tile_loop load compute C b threads (k0 + KB) (sh', out')"
      using True by (subst tile_loop.simps) (simp add: Let_def sh'_def out'_def)
    have "elems out' c = elems out c"
      unfolding out'_def by (rule fold_unchanged) (simp add: assms)
    moreover have "elems (snd (tile_loop load compute C b threads (k0 + KB) (sh', out'))) c = elems out' c"
      using True by (intro less) (simp add: KB_def)
    ultimately show ?thesis by (simp add: step)
  next
    case False
    then show ?thesis by (subst tile_loop.simps) simp
  qed
qed

lemma tile_loop_own:
  assumes t0: "0 \<le> t0" "t0 < threads"
    and others: "\<And>k t sh out. 0 \<le> t \<Longrightarrow> t < threads \<Longrightarrow> t \<noteq> t0 \<Longrightarrow>
      elems (compute k \<lparr>blockIdx_x = b, blockDim_x = threads, threadIdx_x = t\<rparr> sh out) c = elems out c"
    and own: "\<And>k sh out. 0 \<le> k \<Longrightarrow> k < C \<Longrightarrow>
      elems (compute k \<lparr>blockIdx_x = b, blockDim_x = threads, threadIdx_x = t0\<rparr>
               (fold (\<lambda>t. load k \<lparr>blockIdx_x = b, blockDim_x = threads, threadIdx_x = t\<rparr>)
                     [0..threads - 1] sh) out) c
        = elems out c + G k"
    and k0: "0 \<le> k0"
  shows "elems (snd (tile_loop load compute C b threads k0 (sh, out))) c
           = elems out c + (\<Sum>i\<leftarrow>[0..(C - 1 - k0) div KB]. G (k0 + i * KB))"
  using k0
proof (induction "nat (C - k0)" arbitrary: k0 sh out rule: less_induct)
  case less
  show ?case
  proof (cases "k0 < C")
    case True
    define sh' where "sh' = fold (\<lambda>t. load k0 \<lparr>blockIdx_x = b, blockDim_x = threads, threadIdx_x = t\<rparr>)
                   [0..threads - 1] sh"
    define out' where "out' = fold (\<lambda>t. compute k0 \<lparr>blockIdx_x = b, blockDim_x = threads, threadIdx_x = t\<rparr> sh')
                   [0..threads - 1] out"
    define m where "m = (C - 1 - k0) div KB"
    have step: "tile_loop load compute C b threads k0 (sh, out)
        = tile_loop load compute C b threads (k0 + KB) (sh', out')"
      using True by (subst tile_loop.simps) (simp add: Let_def sh'_def out'_def)
    have 1: "elems out' c = elems out c + G k0"
      unfolding out'_def
    proof (rule fold_single_add[where ?t0.0 = t0])
      show "distinct [0..threads - 1]" by simp
      show "t0 \<in> set [0..threads - 1]" using t0 by simp
      show "elems (compute k0 \<lparr>blockIdx_x = b, blockDim_x = threads, threadIdx_x = t\<rparr> sh' s) c = elems s c"
        if "t \<in> set [0..threads - 1]" "t \<noteq> t0" for t s
        using that by (intro others) simp_all
      show "elems (compute k0 \<lparr>blockIdx_x = b, blockDim_x = threads, threadIdx_x = t0\<rparr> sh' s) c
              = elems s c + G k0" for s
        unfolding sh'_def using less.prems True by (intro own)
    qed
    have 2: "elems (snd (tile_loop load compute C b threads (k0 + KB) (sh', out'))) c
        = elems out' c + (\<Sum>i\<leftarrow>[0..(C - 1 - (k0 + KB)) div KB]. G (k0 + KB + i * KB))"
      using True less.prems by (intro less) (simp_all add: KB_def)
    have m0: "0 \<le> m" using True by (simp add: m_def KB_def pos_imp_zdiv_nonneg_iff)
    have m1: "(C - 1 - (k0 + KB)) div KB = m - 1" by (simp add: m_def KB_def)
    have "map (\<lambda>i. G (k0 + i * KB)) [0..m] = G k0 # map (\<lambda>i. G (k0 + i * KB)) [0 + 1..(m - 1) + 1]"
      using m0 by (simp add: upto_rec1[of 0 m])
    also have "map (\<lambda>i. G (k0 + i * KB)) [0 + 1..(m - 1) + 1]
        = map (\<lambda>i. G (k0 + KB + i * KB)) [0..m - 1]"
      unfolding map_upto_shift by (simp add: algebra_simps)
    finally have 3: "(\<Sum>i\<leftarrow>[0..m]. G (k0 + i * KB))
        = G k0 + (\<Sum>i\<leftarrow>[0..m - 1]. G (k0 + KB + i * KB))" by simp
    show ?thesis
      unfolding step 2 1 m1 m_def[symmetric] 3 by simp
  next
    case False
    then have "(C - 1 - k0) div KB < 0" by (simp add: KB_def)
    then show ?thesis using False by (subst tile_loop.simps) simp
  qed
qed

lemma launch_tiles_cell:
  assumes b0: "0 \<le> b0" "b0 < blocks" and t0: "0 \<le> t0" "t0 < threads"
    and others: "\<And>b k t sh out. 0 \<le> b \<Longrightarrow> b < blocks \<Longrightarrow> 0 \<le> t \<Longrightarrow> t < threads
      \<Longrightarrow> b \<noteq> b0 \<or> t \<noteq> t0 \<Longrightarrow>
      elems (compute k \<lparr>blockIdx_x = b, blockDim_x = threads, threadIdx_x = t\<rparr> sh out) c = elems out c"
    and own: "\<And>k sh out. 0 \<le> k \<Longrightarrow> k < C \<Longrightarrow>
      elems (compute k \<lparr>blockIdx_x = b0, blockDim_x = threads, threadIdx_x = t0\<rparr>
               (fold (\<lambda>t. load k \<lparr>blockIdx_x = b0, blockDim_x = threads, threadIdx_x = t\<rparr>)
                     [0..threads - 1] sh) out) c
        = elems out c + G k"
  shows "elems (launch_tiles blocks threads load compute C output) c
           = elems output c + (\<Sum>i\<leftarrow>[0..(C - 1) div KB]. G (i * KB))"
  unfolding launch_tiles_def
proof (rule fold_single_add[where ?t0.0 = b0])
  show "distinct [0..blocks - 1]" by simp
  show "b0 \<in> set [0..blocks - 1]" using b0 by simp
  show "elems (snd (tile_loop load compute C b threads 0 (\<lambda>i. undefined, s))) c = elems s c"
    if "b \<in> set [0..blocks - 1]" "b \<noteq> b0" for b s
    using that by (intro tile_loop_other others) simp_all
  show "elems (snd (tile_loop load compute C b0 threads 0 (\<lambda>i. undefined, s))) c
      = elems s c + (\<Sum>i\<leftarrow>[0..(C - 1) div KB]. G (i * KB))" for s
    using tile_loop_own[where load = load and compute = compute and b = b0 and c = c and G = G
        and C = C and ?k0.0 = 0 and sh = "\<lambda>i. undefined" and out = s, OF t0]
      others[OF b0] own by simp
qed

text \<open>
  The dot products of the chunks of \<open>KB = 32\<close> window positions add up to the sum over the
  window, because the terms beyond the window are zero.
\<close>

lemma map_upto_offset: "map f [i + a..j + a] = map (\<lambda>x. f (x + a)) [i..j]"
proof (induction i j rule: upto.induct)
  case (1 i j)
  show ?case
  proof (cases "i \<le> j")
    case True
    then show ?thesis
      using 1 by (simp add: upto_rec1[of i j] upto_rec1[of "i + a" "j + a"] add.assoc add.commute[of 1 a])
  next
    case False
    then show ?thesis by simp
  qed
qed

lemma sum_chunks:
  fixes g :: "int \<Rightarrow> real"
  assumes "\<And>k. C \<le> k \<Longrightarrow> g k = 0"
  shows "(\<Sum>i\<leftarrow>[0..(C - 1) div 32]. \<Sum>j\<leftarrow>[0..31]. g (i * 32 + j)) = (\<Sum>k\<leftarrow>[0..C - 1]. g k)"
proof (cases "1 \<le> C")
  case False
  then have "(C - 1) div 32 < 0" by simp
  then show ?thesis using False by simp
next
  case True
  have full: "(\<Sum>i\<leftarrow>[0..int m]. \<Sum>j\<leftarrow>[0..31]. g (i * 32 + j)) = (\<Sum>k\<leftarrow>[0..int m * 32 + 31]. g k)" for m
  proof (induction m)
    case 0
    have "map (\<lambda>j. g (0 * 32 + j)) [0..31] = map g [0..31]" by simp
    then show ?case by simp
  next
    case (Suc m)
    have a: "[0..int (Suc m)] = [0..int m] @ [int m + 1]"
      using upto_rec2[of 0 "int m + 1"] by (simp add: add.commute)
    have b: "[0..int (Suc m) * 32 + 31] = [0..int m * 32 + 31] @ [int m * 32 + 32..int m * 32 + 63]"
      using upto_split2[of 0 "int m * 32 + 31" "int m * 32 + 63"] by (simp add: algebra_simps)
    have c: "map (\<lambda>j. g ((int m + 1) * 32 + j)) [0..31] = map g [int m * 32 + 32..int m * 32 + 63]"
      using map_upto_offset[of g 0 "int m * 32 + 32" 31] by (simp add: algebra_simps)
    show ?case unfolding a b using Suc c by simp
  qed
  define m where "m = nat ((C - 1) div 32)"
  have m: "int m = (C - 1) div 32" using True by (simp add: m_def pos_imp_zdiv_nonneg_iff)
  have le: "C - 1 \<le> int m * 32 + 31" unfolding m by presburger
  have sp: "[0..int m * 32 + 31] = [0..C - 1] @ [C..int m * 32 + 31]"
    using upto_split2[of 0 "C - 1" "int m * 32 + 31"] True le by simp
  have "map g [C..int m * 32 + 31] = map (\<lambda>k. 0) [C..int m * 32 + 31]"
    by (rule map_cong) (simp_all add: assms)
  then have "(\<Sum>k\<leftarrow>[C..int m * 32 + 31]. g k) = (\<Sum>k\<leftarrow>[C..int m * 32 + 31]. 0)"
    by (rule arg_cong)
  then have z: "(\<Sum>k\<leftarrow>[C..int m * 32 + 31]. g k) = 0" by (simp del: map_eq_conv)
  show ?thesis
    using full[of m] unfolding m[symmetric] sp by (simp add: z)
qed

subsection \<open>Shared memory and tile coordinates\<close>

text \<open>
  In the load phase the thread \<open>t\<close> of a block stores at the offsets \<open>t\<close>, \<open>1024 + t\<close> and
  \<open>2048 + t\<close> of the shared memory, so after the barrier each of the \<open>3 * 1024\<close> floats holds
  what its one writer stored. The block index is the mixed-radix number
  \<open>((n * H + h) * lblocks + lblock) * eblocks + eblock\<close>, which \<open>tile_coords\<close> takes apart.
\<close>

lemma fold_add_sum_list:
  fixes a :: real
  shows "fold (\<lambda>j r. r + f j) xs a = a + (\<Sum>j\<leftarrow>xs. f j)"
  by (induction xs arbitrary: a) simp_all

lemma fold_three_stores:
  fixes step :: "int \<Rightarrow> (int \<Rightarrow> 'v) \<Rightarrow> (int \<Rightarrow> 'v)"
  assumes t0: "0 \<le> t0" "t0 < M"
    and step: "\<And>t sh. 0 \<le> t \<Longrightarrow> t < M \<Longrightarrow> step t sh = sh(t := a t, M + t := b t, 2 * M + t := c t)"
  shows "fold step [0..M - 1] sh t0 = a t0"
    and "fold step [0..M - 1] sh (M + t0) = b t0"
    and "fold step [0..M - 1] sh (2 * M + t0) = c t0"
proof -
  have in0: "t0 \<in> set [0..M - 1]" using t0 by simp
  show "fold step [0..M - 1] sh t0 = a t0"
  proof (rule fold_establish[where ?t0.0 = t0 and P = "\<lambda>s. s t0 = a t0", OF in0])
    show "step t0 s t0 = a t0" for s using t0 by (simp add: step)
    show "step t s t0 = a t0" if "t \<in> set [0..M - 1]" "s t0 = a t0" for t s
      using that t0 by (cases "t = t0") (simp_all add: step)
  qed
  show "fold step [0..M - 1] sh (M + t0) = b t0"
  proof (rule fold_establish[where ?t0.0 = t0 and P = "\<lambda>s. s (M + t0) = b t0", OF in0])
    show "step t0 s (M + t0) = b t0" for s using t0 by (simp add: step)
    show "step t s (M + t0) = b t0" if "t \<in> set [0..M - 1]" "s (M + t0) = b t0" for t s
      using that t0 by (cases "t = t0") (simp_all add: step)
  qed
  show "fold step [0..M - 1] sh (2 * M + t0) = c t0"
  proof (rule fold_establish[where ?t0.0 = t0 and P = "\<lambda>s. s (2 * M + t0) = c t0", OF in0])
    show "step t0 s (2 * M + t0) = c t0" for s using t0 by (simp add: step)
    show "step t s (2 * M + t0) = c t0" if "t \<in> set [0..M - 1]" "s (2 * M + t0) = c t0" for t s
      using that t0 by (cases "t = t0") (simp_all add: step)
  qed
qed

lemma block_index:
  fixes n :: int
  assumes "0 \<le> n" "0 \<le> h" "h < H" "0 \<le> lblock" "lblock < lb" "0 \<le> eblock" "eblock < eb"
  shows "0 \<le> ((n * H + h) * lb + lblock) * eb + eblock"
    and "n < N \<Longrightarrow> ((n * H + h) * lb + lblock) * eb + eblock < N * H * lb * eb"
proof -
  have a: "0 \<le> n * H + h" using assms by simp
  then have b: "0 \<le> (n * H + h) * lb + lblock" using assms by simp
  then show "0 \<le> ((n * H + h) * lb + lblock) * eb + eblock" using assms by simp
  assume "n < N"
  then have "n * H + h < N * H" using batch_index(2)[of n N h H] assms by simp
  then have "(n * H + h) * lb + lblock < N * H * lb"
    using batch_index(2)[of "n * H + h" "N * H" lblock lb] a assms by simp
  then show "((n * H + h) * lb + lblock) * eb + eblock < N * H * lb * eb"
    using batch_index(2)[of "(n * H + h) * lb + lblock" "N * H * lb" eblock eb] b assms by simp
qed

lemma block_decomp:
  fixes b :: int
  assumes "0 \<le> b" "0 < H" "0 < lb" "0 < eb"
  shows "\<exists>n h lblock eblock. 0 \<le> n \<and> 0 \<le> h \<and> h < H \<and> 0 \<le> lblock \<and> lblock < lb
            \<and> 0 \<le> eblock \<and> eblock < eb \<and> b = ((n * H + h) * lb + lblock) * eb + eblock"
proof -
  define q1 where "q1 = b div eb"
  define q2 where "q2 = q1 div lb"
  have q1: "0 \<le> q1" using assms by (simp add: q1_def pos_imp_zdiv_nonneg_iff)
  have q2: "0 \<le> q2" using q1 assms by (simp add: q2_def pos_imp_zdiv_nonneg_iff)
  have "b = q1 * eb + b mod eb" by (simp add: q1_def)
  moreover have "q1 = q2 * lb + q1 mod lb" by (simp add: q2_def)
  moreover have "q2 = (q2 div H) * H + q2 mod H" by simp
  ultimately have e: "b = (((q2 div H) * H + q2 mod H) * lb + q1 mod lb) * eb + b mod eb" by simp
  have "0 \<le> q2 div H" using q2 assms by (simp add: pos_imp_zdiv_nonneg_iff)
  then show ?thesis
    using assms e
    by (intro exI[of _ "q2 div H"] exI[of _ "q2 mod H"] exI[of _ "q1 mod lb"] exI[of _ "b mod eb"]) simp
qed

lemma tile_coords_block:
  assumes "0 \<le> n" "0 \<le> h" "h < H" "0 \<le> lblock" "lblock < lb" "0 \<le> eblock" "eblock < eb" "0 \<le> t"
  shows "tile_coords \<lparr>dim_x = H * lb * eb, dim_y = lb * eb, dim_z = eb\<rparr>
           \<lparr>blockIdx_x = ((n * H + h) * lb + lblock) * eb + eblock, blockDim_x = T, threadIdx_x = t\<rparr>
         = (n, h, t div 32, t mod 32, lblock * 32 + t div 32, eblock * 32 + t mod 32)"
proof -
  define r2 where "r2 = lblock * eb + eblock"
  define r1 where "r1 = h * (lb * eb) + r2"
  define b where "b = ((n * H + h) * lb + lblock) * eb + eblock"
  have eb: "0 < eb" and lb: "0 < lb" and H: "0 < H" using assms by simp_all
  have r2: "0 \<le> r2" "r2 < lb * eb"
    using batch_index(1,2)[of lblock lb eblock eb] assms by (simp_all add: r2_def)
  have r1: "0 \<le> r1" "r1 < H * (lb * eb)"
    using batch_index(1,2)[of h H r2 "lb * eb"] r2 assms by (simp_all add: r1_def)
  have b: "b = n * (H * lb * eb) + r1" by (simp add: b_def r1_def r2_def algebra_simps)
  have b0: "0 \<le> b" using r1 assms lb eb by (simp add: b)
  have 1: "b sdiv (H * lb * eb) = n"
    using div_mod_offset(1)[of r1 "H * lb * eb" n] r1 b0 H lb eb
    by (simp add: sdiv_nonneg b mult.assoc)
  have 2: "r1 sdiv (lb * eb) = h"
    using div_mod_offset(1)[of r2 "lb * eb" h] r2 r1 lb eb by (simp add: sdiv_nonneg r1_def)
  have 3: "r2 sdiv eb = lblock"
    using div_mod_offset(1)[of eblock eb lblock] r2 assms by (simp add: sdiv_nonneg r2_def)
  have 4: "t sdiv 32 = t div 32" using assms by (simp add: sdiv_nonneg)
  have 5: "t - t div 32 * 32 = t mod 32" by (simp add: minus_div_mult_eq_mod)
  have 6: "b - n * (H * lb * eb) = r1" by (simp add: b)
  have 7: "r1 - h * (lb * eb) = r2" by (simp add: r1_def)
  have 8: "r2 - lblock * eb = eblock" by (simp add: r2_def)
  show ?thesis
    unfolding b_def[symmetric]
    by (simp only: tile_coords_def Let_def dim3.select_convs cuda_thread.select_convs LB_def EB_def
          1 6 2 7 3 8 4 5)
qed

lemma ceildiv_tile:
  assumes "0 \<le> l" "l < L"
  shows "0 \<le> l div 32" "l div 32 < ceildiv L 32" "0 \<le> l mod 32" "l mod 32 < 32"
    "l div 32 * 32 + l mod 32 = l"
proof -
  have "l div 32 \<le> (L - 1) div 32" using assms by (intro zdiv_mono1) simp_all
  also have "\<dots> < (L - 1 + 32) div 32" by simp
  finally show "l div 32 < ceildiv L 32" using assms by (simp add: ceildiv_def sdiv_nonneg)
  show "0 \<le> l div 32" using assms by (simp add: pos_imp_zdiv_nonneg_iff)
qed simp_all

lemma tile_thread_unique:
  fixes t :: int
  assumes "0 \<le> t" "t < 1024" "lblock' * 32 + t div 32 = l" "eblock' * 32 + t mod 32 = e"
  shows "lblock' = l div 32" "eblock' = e div 32" "t = l mod 32 * 32 + e mod 32"
proof -
  have "t div 32 \<le> 1023 div 32" using assms(2) by (intro zdiv_mono1) simp_all
  then have a: "0 \<le> t div 32" "t div 32 < 32" using assms(1) by (simp_all add: pos_imp_zdiv_nonneg_iff)
  have b: "0 \<le> t mod 32" "t mod 32 < 32" by simp_all
  have l: "l div 32 = lblock'" "l mod 32 = t div 32"
    using div_mod_offset[OF a, of lblock'] assms(3) by simp_all
  have e: "e div 32 = eblock'" "e mod 32 = t mod 32"
    using div_mod_offset[OF b, of eblock'] assms(4) by simp_all
  show "lblock' = l div 32" "eblock' = e div 32" using l e by simp_all
  show "t = l mod 32 * 32 + e mod 32" unfolding l e by simp
qed

subsection \<open>The two tiled kernels\<close>

text \<open>
  For the cell \<open>(n, h, l, e)\<close> one thread of one block accumulates into it; its dot product over
  the two value tiles in shared memory is the sum of the window terms of the chunk.
\<close>

lemma local_copy_scaled_cell:
  assumes F: "sizes factors = [N, H, L, C]" and V: "size_at values 2 = S" "size_at values 3 = E"
    and n: "0 \<le> n" "n < N" and h: "0 \<le> h" "h < H" and l: "0 \<le> l" "l < L"
    and e: "0 \<le> e" "e < E" and C: "0 \<le> C"
  shows "elems (local_copy_scaled (N * H * ceildiv L 32 * ceildiv E 32) 1024 sm factors values output
                  \<lparr>dim_x = H * ceildiv L 32 * ceildiv E 32, dim_y = ceildiv L 32 * ceildiv E 32,
                   dim_z = ceildiv E 32\<rparr>) [n, h, l, e]
     = elems output [n, h, l, e]
       + (\<Sum>k\<leftarrow>[0..C - 1]. if 0 \<le> l - C div 2 + k \<and> l - C div 2 + k < S
                           then elems factors [n, h, l, k] * elems values [n, h, l - C div 2 + k, e]
                           else 0)"
proof -
  define lb where "lb = ceildiv L 32"
  define eb where "eb = ceildiv E 32"
  define st where "st = \<lparr>dim_x = H * lb * eb, dim_y = lb * eb, dim_z = eb\<rparr>"
  define lblock where "lblock = l div 32"
  define eblock where "eblock = e div 32"
  define ll0 where "ll0 = l mod 32"
  define el0 where "el0 = e mod 32"
  define b0 where "b0 = ((n * H + h) * lb + lblock) * eb + eblock"
  define t0 where "t0 = ll0 * 32 + el0"
  define g where "g = (\<lambda>k. if k < C \<and> 0 \<le> l - C div 2 + k \<and> l - C div 2 + k < S
                           then elems factors [n, h, l, k] * elems values [n, h, l - C div 2 + k, e]
                           else 0)"
  note tl = ceildiv_tile[OF l, folded lb_def lblock_def ll0_def]
  note te = ceildiv_tile[OF e, folded eb_def eblock_def el0_def]
  have lb0: "0 < lb" and eb0: "0 < eb" and H0: "0 < H" using tl te h by simp_all
  have szF: "size_at factors 0 = N" "size_at factors 2 = L" "size_at factors 3 = C"
    using F by (simp_all add: size_at_def)
  have b0r: "0 \<le> b0" "b0 < N * H * lb * eb"
    unfolding b0_def using block_index[OF n(1) h tl(1,2) te(1,2)] n(2) by simp_all
  have t0r: "0 \<le> t0" "t0 < 1024" using tl te by (simp_all add: t0_def)
  have t0d: "t0 div 32 = ll0" "t0 mod 32 = el0"
    unfolding t0_def using div_mod_offset[OF te(3,4), of ll0] by simp_all
  have tc0: "tile_coords st \<lparr>blockIdx_x = b0, blockDim_x = 1024, threadIdx_x = t\<rparr>
         = (n, h, t div 32, t mod 32, lblock * 32 + t div 32, eblock * 32 + t mod 32)"
    if "0 \<le> t" for t
    unfolding st_def b0_def by (rule tile_coords_block[OF n(1) h tl(1,2) te(1,2) that])
  have others: "elems (local_copy_scaled_compute factors values st k
                         \<lparr>blockIdx_x = b, blockDim_x = 1024, threadIdx_x = t\<rparr> sh out) [n, h, l, e]
                  = elems out [n, h, l, e]"
    if b: "0 \<le> b" "b < N * H * lb * eb" and t: "0 \<le> t" "t < 1024" and ne: "b \<noteq> b0 \<or> t \<noteq> t0"
    for b k t sh out
  proof -
    obtain n' h' lblock' eblock' where d: "0 \<le> n'" "0 \<le> h'" "h' < H" "0 \<le> lblock'" "lblock' < lb"
        "0 \<le> eblock'" "eblock' < eb" "b = ((n' * H + h') * lb + lblock') * eb + eblock'"
      using block_decomp[OF b(1) H0 lb0 eb0] by blast
    have tc: "tile_coords st \<lparr>blockIdx_x = b, blockDim_x = 1024, threadIdx_x = t\<rparr>
         = (n', h', t div 32, t mod 32, lblock' * 32 + t div 32, eblock' * 32 + t mod 32)"
      unfolding st_def d(8) by (rule tile_coords_block[OF d(1-7) t(1)])
    have "[n, h, l, e] \<noteq> [n', h', lblock' * 32 + t div 32, eblock' * 32 + t mod 32]"
    proof
      assume "[n, h, l, e] = [n', h', lblock' * 32 + t div 32, eblock' * 32 + t mod 32]"
      then have eq: "n' = n" "h' = h" "lblock' * 32 + t div 32 = l" "eblock' * 32 + t mod 32 = e"
        by simp_all
      note u = tile_thread_unique[OF t eq(3,4)]
      have "b = b0" unfolding d(8) b0_def eq(1,2) u(1,2) lblock_def eblock_def ..
      moreover have "t = t0" using u(3) by (simp add: t0_def ll0_def el0_def)
      ultimately show False using ne by simp
    qed
    then show ?thesis
      by (auto simp: local_copy_scaled_compute_def tc Let_def)
  qed
  have own: "elems (local_copy_scaled_compute factors values st k
                      \<lparr>blockIdx_x = b0, blockDim_x = 1024, threadIdx_x = t0\<rparr>
                      (fold (\<lambda>t. local_copy_scaled_load factors values st k
                                  \<lparr>blockIdx_x = b0, blockDim_x = 1024, threadIdx_x = t\<rparr>)
                            [0..1024 - 1] sh) out) [n, h, l, e]
               = elems out [n, h, l, e] + (\<Sum>j\<leftarrow>[0..31]. g (k + j))"
    if k: "0 \<le> k" "k < C" for k sh out
  proof -
    define FVt where "FVt = (\<lambda>t. if lblock * 32 + t div 32 < L \<and> k + t mod 32 < C
           \<and> 0 \<le> lblock * 32 + t div 32 - C div 2 + k + t mod 32
           \<and> lblock * 32 + t div 32 - C div 2 + k + t mod 32 < S
         then elems factors [n, h, lblock * 32 + t div 32, k + t mod 32] else 0)"
    define VV where "VV = (\<lambda>r el. if eblock * 32 + el < E \<and> 0 \<le> lblock * 32 + r - C div 2 + k
           \<and> lblock * 32 + r - C div 2 + k < S
         then elems values [n, h, lblock * 32 + r - C div 2 + k, eblock * 32 + el] else 0)"
    define sh' where "sh' = fold (\<lambda>t. local_copy_scaled_load factors values st k
                                  \<lparr>blockIdx_x = b0, blockDim_x = 1024, threadIdx_x = t\<rparr>)
                            [0..1024 - 1] sh"
    have load: "local_copy_scaled_load factors values st k
                  \<lparr>blockIdx_x = b0, blockDim_x = 1024, threadIdx_x = t\<rparr> s
          = s(t := FVt t, 1024 + t := VV (t div 32) (t mod 32), 2 * 1024 + t := VV (t div 32 + 32) (t mod 32))"
      if "0 \<le> t" "t < 1024" for t s
    proof -
      have i: "0 + (t div 32 * 32 + t mod 32) = t" "0 + 32 * 32 + (t div 32 * 32 + t mod 32) = 1024 + t"
        "0 + 32 * 32 + ((t div 32 + 32) * 32 + t mod 32) = 2 * 1024 + t"
        by simp_all
      have a: "lblock * 32 + t div 32 - C div 2 + k + 32 = lblock * 32 + (t div 32 + 32) - C div 2 + k"
        by simp
      show ?thesis
        using n(2) C
        by (simp only: local_copy_scaled_load_def tc0[OF that(1)] Let_def prod.case szF V LB_def KB_def
              EB_def sdiv_nonneg i a FVt_def VV_def)
           simp
    qed
    have stores: "sh' t = FVt t" "sh' (1024 + t) = VV (t div 32) (t mod 32)"
        "sh' (2 * 1024 + t) = VV (t div 32 + 32) (t mod 32)"
      if "0 \<le> t" "t < 1024" for t
      unfolding sh'_def by (rule fold_three_stores[OF that load]; assumption)+
    have prod_j: "sh' (0 + (ll0 * 32 + j)) * sh' (0 + 32 * 32 + ((j + ll0) * 32 + el0)) = g (k + j)"
      if j: "0 \<le> j" "j \<le> 31" for j
    proof -
      have t1: "0 \<le> ll0 * 32 + j" "ll0 * 32 + j < 1024" using tl j by simp_all
      have d1: "(ll0 * 32 + j) div 32 = ll0" "(ll0 * 32 + j) mod 32 = j"
        using div_mod_offset[of j 32 ll0] j by simp_all
      have f: "sh' (0 + (ll0 * 32 + j)) = (if k + j < C \<and> 0 \<le> l - C div 2 + k + j
           \<and> l - C div 2 + k + j < S then elems factors [n, h, l, k + j] else 0)"
        unfolding add_0 stores(1)[OF t1] FVt_def d1 using l tl(5) by simp
      have v: "sh' (0 + 32 * 32 + ((j + ll0) * 32 + el0)) = VV (j + ll0) el0"
      proof (cases "j + ll0 < 32")
        case True
        have t2: "0 \<le> (j + ll0) * 32 + el0" "(j + ll0) * 32 + el0 < 1024" using True tl te j by simp_all
        have d2: "((j + ll0) * 32 + el0) div 32 = j + ll0" "((j + ll0) * 32 + el0) mod 32 = el0"
          using div_mod_offset[OF te(3,4), of "j + ll0"] by simp_all
        have i: "0 + 32 * 32 + ((j + ll0) * 32 + el0) = 1024 + ((j + ll0) * 32 + el0)" by simp
        show ?thesis unfolding i stores(2)[OF t2] d2 by (rule refl)
      next
        case False
        have t2: "0 \<le> (j + ll0 - 32) * 32 + el0" "(j + ll0 - 32) * 32 + el0 < 1024"
          using False tl te j by simp_all
        have d2: "((j + ll0 - 32) * 32 + el0) div 32 = j + ll0 - 32"
          "((j + ll0 - 32) * 32 + el0) mod 32 = el0"
          using div_mod_offset[OF te(3,4), of "j + ll0 - 32"] by simp_all
        have i: "0 + 32 * 32 + ((j + ll0) * 32 + el0) = 2 * 1024 + ((j + ll0 - 32) * 32 + el0)" by simp
        show ?thesis unfolding i stores(3)[OF t2] d2 by simp
      qed
      have vv: "VV (j + ll0) el0 = (if 0 \<le> l - C div 2 + k + j \<and> l - C div 2 + k + j < S
           then elems values [n, h, l - C div 2 + k + j, e] else 0)"
      proof -
        have a: "lblock * 32 + (j + ll0) - C div 2 + k = l - C div 2 + k + j" using tl(5) by simp
        show ?thesis unfolding VV_def a te(5) using e by simp
      qed
      have a: "l - C div 2 + (k + j) = l - C div 2 + k + j" by simp
      show ?thesis unfolding f v vv g_def a by simp
    qed
    have res: "fold (\<lambda>k_local result. result + sh' (0 + (ll0 * 32 + k_local))
                       * sh' (0 + 32 * 32 + ((k_local + ll0) * 32 + el0))) [0..32 - 1] 0
          = (\<Sum>j\<leftarrow>[0..31]. g (k + j))"
    proof -
      have m: "map (\<lambda>k_local. sh' (0 + (ll0 * 32 + k_local))
                       * sh' (0 + 32 * 32 + ((k_local + ll0) * 32 + el0))) [0..32 - 1]
          = map (\<lambda>j. g (k + j)) [0..31]"
      proof (rule map_cong)
        show "[0..32 - 1] = [0..(31::int)]" by (simp del: upto_rec_numeral)
        fix x :: int
        assume "x \<in> set [0..31]"
        then have "0 \<le> x" "x \<le> 31" by (simp_all del: upto_rec_numeral)
        then show "sh' (0 + (ll0 * 32 + x)) * sh' (0 + 32 * 32 + ((x + ll0) * 32 + el0)) = g (k + x)"
          by (rule prod_j)
      qed
      show ?thesis unfolding fold_add_sum_list m by simp
    qed
    have tcc: "tile_coords st \<lparr>blockIdx_x = b0, blockDim_x = 1024, threadIdx_x = t0\<rparr> = (n, h, ll0, el0, l, e)"
      using tc0[OF t0r(1)] tl(5) te(5) by (simp add: t0d)
    show ?thesis
      unfolding sh'_def[symmetric]
      using n(2) l e
      by (simp only: local_copy_scaled_compute_def tcc Let_def prod.case szF V LB_def KB_def EB_def res)
         simp
  qed
  have gz: "g k = 0" if "C \<le> k" for k using that by (simp add: g_def)
  have "elems (launch_tiles (N * H * lb * eb) 1024
                 (local_copy_scaled_load factors values st) (local_copy_scaled_compute factors values st)
                 C output) [n, h, l, e]
      = elems output [n, h, l, e] + (\<Sum>i\<leftarrow>[0..(C - 1) div KB]. \<Sum>j\<leftarrow>[0..31]. g (i * KB + j))"
    by (rule launch_tiles_cell[where load = "local_copy_scaled_load factors values st"
          and compute = "local_copy_scaled_compute factors values st"
          and G = "\<lambda>k. \<Sum>j\<leftarrow>[0..31]. g (k + j)" and C = C and threads = 1024,
          OF b0r t0r others own])
  also have "(\<Sum>i\<leftarrow>[0..(C - 1) div KB]. \<Sum>j\<leftarrow>[0..31]. g (i * KB + j)) = (\<Sum>k\<leftarrow>[0..C - 1]. g k)"
    unfolding KB_def by (rule sum_chunks[OF gz])
  also have "(\<Sum>k\<leftarrow>[0..C - 1]. g k) = (\<Sum>k\<leftarrow>[0..C - 1]. if 0 \<le> l - C div 2 + k \<and> l - C div 2 + k < S
                           then elems factors [n, h, l, k] * elems values [n, h, l - C div 2 + k, e]
                           else 0)"
    by (rule arg_cong[where f = sum_list], rule map_cong) (simp_all add: g_def)
  finally show ?thesis
    by (simp add: local_copy_scaled_def szF lb_def eb_def st_def)
qed

lemma stores_reorder:
  fixes sh :: "int \<Rightarrow> 'v"
  shows "sh(1024 + t := b, 2 * 1024 + t := c, t := a) = sh(t := a, 1024 + t := b, 2 * 1024 + t := c)"
  by (auto simp: fun_eq_iff)

lemma local_copy_scaled_transpose_cell:
  assumes F: "sizes factors = [N, H, L, C]" and V: "size_at values 2 = L" "size_at values 3 = E"
    and n: "0 \<le> n" "n < N" and h: "0 \<le> h" "h < H" and s: "0 \<le> s" "s < L"
    and e: "0 \<le> e" "e < E" and C: "0 \<le> C"
    and p: "\<And>k j. lk_policy k j C = p (k + j)"
  shows "elems (local_copy_scaled_transpose (N * H * ceildiv L 32 * ceildiv E 32) 1024 sm factors values
                  output
                  \<lparr>dim_x = H * ceildiv L 32 * ceildiv E 32, dim_y = ceildiv L 32 * ceildiv E 32,
                   dim_z = ceildiv E 32\<rparr> lk_policy) [n, h, s, e]
     = elems output [n, h, s, e]
       + (\<Sum>k\<leftarrow>[0..C - 1]. if 0 \<le> s - (C - 1) div 2 + k \<and> s - (C - 1) div 2 + k < L
                           then elems values [n, h, s - (C - 1) div 2 + k, e]
                                * elems factors [n, h, s - (C - 1) div 2 + k, p k]
                           else 0)"
proof -
  define lb where "lb = ceildiv L 32"
  define eb where "eb = ceildiv E 32"
  define st where "st = \<lparr>dim_x = H * lb * eb, dim_y = lb * eb, dim_z = eb\<rparr>"
  define sblock where "sblock = s div 32"
  define eblock where "eblock = e div 32"
  define sl0 where "sl0 = s mod 32"
  define el0 where "el0 = e mod 32"
  define b0 where "b0 = ((n * H + h) * lb + sblock) * eb + eblock"
  define t0 where "t0 = sl0 * 32 + el0"
  define g where "g = (\<lambda>k. if k < C \<and> 0 \<le> s - (C - 1) div 2 + k \<and> s - (C - 1) div 2 + k < L
                           then elems values [n, h, s - (C - 1) div 2 + k, e]
                                * elems factors [n, h, s - (C - 1) div 2 + k, p k]
                           else 0)"
  note tl = ceildiv_tile[OF s, folded lb_def sblock_def sl0_def]
  note te = ceildiv_tile[OF e, folded eb_def eblock_def el0_def]
  have lb0: "0 < lb" and eb0: "0 < eb" and H0: "0 < H" using tl te h by simp_all
  have szF: "size_at factors 0 = N" "size_at factors 2 = L" "size_at factors 3 = C"
    using F by (simp_all add: size_at_def)
  have b0r: "0 \<le> b0" "b0 < N * H * lb * eb"
    unfolding b0_def using block_index[OF n(1) h tl(1,2) te(1,2)] n(2) by simp_all
  have t0r: "0 \<le> t0" "t0 < 1024" using tl te by (simp_all add: t0_def)
  have t0d: "t0 div 32 = sl0" "t0 mod 32 = el0"
    unfolding t0_def using div_mod_offset[OF te(3,4), of sl0] by simp_all
  have tc0: "tile_coords st \<lparr>blockIdx_x = b0, blockDim_x = 1024, threadIdx_x = t\<rparr>
         = (n, h, t div 32, t mod 32, sblock * 32 + t div 32, eblock * 32 + t mod 32)"
    if "0 \<le> t" for t
    unfolding st_def b0_def by (rule tile_coords_block[OF n(1) h tl(1,2) te(1,2) that])
  have others: "elems (local_copy_scaled_transpose_compute factors values st k
                         \<lparr>blockIdx_x = b, blockDim_x = 1024, threadIdx_x = t\<rparr> sh out) [n, h, s, e]
                  = elems out [n, h, s, e]"
    if b: "0 \<le> b" "b < N * H * lb * eb" and t: "0 \<le> t" "t < 1024" and ne: "b \<noteq> b0 \<or> t \<noteq> t0"
    for b k t sh out
  proof -
    obtain n' h' sblock' eblock' where d: "0 \<le> n'" "0 \<le> h'" "h' < H" "0 \<le> sblock'" "sblock' < lb"
        "0 \<le> eblock'" "eblock' < eb" "b = ((n' * H + h') * lb + sblock') * eb + eblock'"
      using block_decomp[OF b(1) H0 lb0 eb0] by blast
    have tc: "tile_coords st \<lparr>blockIdx_x = b, blockDim_x = 1024, threadIdx_x = t\<rparr>
         = (n', h', t div 32, t mod 32, sblock' * 32 + t div 32, eblock' * 32 + t mod 32)"
      unfolding st_def d(8) by (rule tile_coords_block[OF d(1-7) t(1)])
    have "[n, h, s, e] \<noteq> [n', h', sblock' * 32 + t div 32, eblock' * 32 + t mod 32]"
    proof
      assume "[n, h, s, e] = [n', h', sblock' * 32 + t div 32, eblock' * 32 + t mod 32]"
      then have eq: "n' = n" "h' = h" "sblock' * 32 + t div 32 = s" "eblock' * 32 + t mod 32 = e"
        by simp_all
      note u = tile_thread_unique[OF t eq(3,4)]
      have "b = b0" unfolding d(8) b0_def eq(1,2) u(1,2) sblock_def eblock_def ..
      moreover have "t = t0" using u(3) by (simp add: t0_def sl0_def el0_def)
      ultimately show False using ne by simp
    qed
    then show ?thesis
      by (auto simp: local_copy_scaled_transpose_compute_def tc Let_def)
  qed
  have own: "elems (local_copy_scaled_transpose_compute factors values st k
                      \<lparr>blockIdx_x = b0, blockDim_x = 1024, threadIdx_x = t0\<rparr>
                      (fold (\<lambda>t. local_copy_scaled_transpose_load factors values st lk_policy k
                                  \<lparr>blockIdx_x = b0, blockDim_x = 1024, threadIdx_x = t\<rparr>)
                            [0..1024 - 1] sh) out) [n, h, s, e]
               = elems out [n, h, s, e] + (\<Sum>j\<leftarrow>[0..31]. g (k + j))"
    if k: "0 \<le> k" "k < C" for k sh out
  proof -
    have C1: "0 \<le> C - 1" using k by simp
    define FVt where "FVt = (\<lambda>t. if 0 \<le> sblock * 32 + t div 32 - (C - 1) div 2 + k + t mod 32
           \<and> sblock * 32 + t div 32 - (C - 1) div 2 + k + t mod 32 < L \<and> k + t mod 32 < C
         then elems factors [n, h, sblock * 32 + t div 32 - (C - 1) div 2 + k + t mod 32,
                             lk_policy k (t mod 32) C] else 0)"
    define VV where "VV = (\<lambda>r el. if 0 \<le> sblock * 32 + r - (C - 1) div 2 + k
           \<and> sblock * 32 + r - (C - 1) div 2 + k < L \<and> eblock * 32 + el < E
         then elems values [n, h, sblock * 32 + r - (C - 1) div 2 + k, eblock * 32 + el] else 0)"
    define sh' where "sh' = fold (\<lambda>t. local_copy_scaled_transpose_load factors values st lk_policy k
                                  \<lparr>blockIdx_x = b0, blockDim_x = 1024, threadIdx_x = t\<rparr>)
                            [0..1024 - 1] sh"
    have load: "local_copy_scaled_transpose_load factors values st lk_policy k
                  \<lparr>blockIdx_x = b0, blockDim_x = 1024, threadIdx_x = t\<rparr> s'
          = s'(t := FVt t, 1024 + t := VV (t div 32) (t mod 32), 2 * 1024 + t := VV (t div 32 + 32) (t mod 32))"
      if "0 \<le> t" "t < 1024" for t s'
    proof -
      have i: "0 + (t div 32 * 32 + t mod 32) = t" "0 + 32 * 32 + (t div 32 * 32 + t mod 32) = 1024 + t"
        "0 + 32 * 32 + ((t div 32 + 32) * 32 + t mod 32) = 2 * 1024 + t"
        by simp_all
      have a: "sblock * 32 + t div 32 - (C - 1) div 2 + k + 32
                 = sblock * 32 + (t div 32 + 32) - (C - 1) div 2 + k"
        by simp
      show ?thesis
        unfolding stores_reorder[symmetric]
        using n(2) C1
        by (simp only: local_copy_scaled_transpose_load_def tc0[OF that(1)] Let_def prod.case szF V
              LB_def KB_def EB_def sdiv_nonneg i a FVt_def VV_def)
           simp
    qed
    have stores: "sh' t = FVt t" "sh' (1024 + t) = VV (t div 32) (t mod 32)"
        "sh' (2 * 1024 + t) = VV (t div 32 + 32) (t mod 32)"
      if "0 \<le> t" "t < 1024" for t
      unfolding sh'_def by (rule fold_three_stores[OF that load]; assumption)+
    have prod_j: "sh' (0 + 32 * 32 + ((sl0 + j) * 32 + el0)) * sh' (0 + (sl0 * 32 + j)) = g (k + j)"
      if j: "0 \<le> j" "j \<le> 31" for j
    proof -
      have t1: "0 \<le> sl0 * 32 + j" "sl0 * 32 + j < 1024" using tl j by simp_all
      have d1: "(sl0 * 32 + j) div 32 = sl0" "(sl0 * 32 + j) mod 32 = j"
        using div_mod_offset[of j 32 sl0] j by simp_all
      have f: "sh' (0 + (sl0 * 32 + j)) = (if 0 \<le> s - (C - 1) div 2 + k + j
           \<and> s - (C - 1) div 2 + k + j < L \<and> k + j < C
           then elems factors [n, h, s - (C - 1) div 2 + k + j, p (k + j)] else 0)"
        unfolding add_0 stores(1)[OF t1] FVt_def d1 tl(5) p by (rule refl)
      have v: "sh' (0 + 32 * 32 + ((sl0 + j) * 32 + el0)) = VV (sl0 + j) el0"
      proof (cases "sl0 + j < 32")
        case True
        have t2: "0 \<le> (sl0 + j) * 32 + el0" "(sl0 + j) * 32 + el0 < 1024" using True tl te j by simp_all
        have d2: "((sl0 + j) * 32 + el0) div 32 = sl0 + j" "((sl0 + j) * 32 + el0) mod 32 = el0"
          using div_mod_offset[OF te(3,4), of "sl0 + j"] by simp_all
        have i: "0 + 32 * 32 + ((sl0 + j) * 32 + el0) = 1024 + ((sl0 + j) * 32 + el0)" by simp
        show ?thesis unfolding i stores(2)[OF t2] d2 by (rule refl)
      next
        case False
        have t2: "0 \<le> (sl0 + j - 32) * 32 + el0" "(sl0 + j - 32) * 32 + el0 < 1024"
          using False tl te j by simp_all
        have d2: "((sl0 + j - 32) * 32 + el0) div 32 = sl0 + j - 32"
          "((sl0 + j - 32) * 32 + el0) mod 32 = el0"
          using div_mod_offset[OF te(3,4), of "sl0 + j - 32"] by simp_all
        have i: "0 + 32 * 32 + ((sl0 + j) * 32 + el0) = 2 * 1024 + ((sl0 + j - 32) * 32 + el0)" by simp
        show ?thesis unfolding i stores(3)[OF t2] d2 by simp
      qed
      have vv: "VV (sl0 + j) el0 = (if 0 \<le> s - (C - 1) div 2 + k + j \<and> s - (C - 1) div 2 + k + j < L
           then elems values [n, h, s - (C - 1) div 2 + k + j, e] else 0)"
      proof -
        have a: "sblock * 32 + (sl0 + j) - (C - 1) div 2 + k = s - (C - 1) div 2 + k + j"
          using tl(5) by simp
        show ?thesis unfolding VV_def a te(5) using e by simp
      qed
      have a: "s - (C - 1) div 2 + (k + j) = s - (C - 1) div 2 + k + j" by simp
      show ?thesis unfolding f v vv g_def a by simp
    qed
    have res: "fold (\<lambda>k_local result. result + sh' (0 + 32 * 32 + ((sl0 + k_local) * 32 + el0))
                       * sh' (0 + (sl0 * 32 + k_local))) [0..32 - 1] 0
          = (\<Sum>j\<leftarrow>[0..31]. g (k + j))"
    proof -
      have m: "map (\<lambda>k_local. sh' (0 + 32 * 32 + ((sl0 + k_local) * 32 + el0))
                       * sh' (0 + (sl0 * 32 + k_local))) [0..32 - 1]
          = map (\<lambda>j. g (k + j)) [0..31]"
      proof (rule map_cong)
        show "[0..32 - 1] = [0..(31::int)]" by (simp del: upto_rec_numeral)
        fix x :: int
        assume "x \<in> set [0..31]"
        then have "0 \<le> x" "x \<le> 31" by (simp_all del: upto_rec_numeral)
        then show "sh' (0 + 32 * 32 + ((sl0 + x) * 32 + el0)) * sh' (0 + (sl0 * 32 + x)) = g (k + x)"
          by (rule prod_j)
      qed
      show ?thesis unfolding fold_add_sum_list m by simp
    qed
    have tcc: "tile_coords st \<lparr>blockIdx_x = b0, blockDim_x = 1024, threadIdx_x = t0\<rparr> = (n, h, sl0, el0, s, e)"
      using tc0[OF t0r(1)] tl(5) te(5) by (simp add: t0d)
    show ?thesis
      unfolding sh'_def[symmetric]
      using n(2) s e
      by (simp only: local_copy_scaled_transpose_compute_def tcc Let_def prod.case szF V LB_def KB_def
            EB_def res)
         simp
  qed
  have gz: "g k = 0" if "C \<le> k" for k using that by (simp add: g_def)
  have "elems (launch_tiles (N * H * lb * eb) 1024
                 (local_copy_scaled_transpose_load factors values st lk_policy)
                 (local_copy_scaled_transpose_compute factors values st)
                 C output) [n, h, s, e]
      = elems output [n, h, s, e] + (\<Sum>i\<leftarrow>[0..(C - 1) div KB]. \<Sum>j\<leftarrow>[0..31]. g (i * KB + j))"
    by (rule launch_tiles_cell[where load = "local_copy_scaled_transpose_load factors values st lk_policy"
          and compute = "local_copy_scaled_transpose_compute factors values st"
          and G = "\<lambda>k. \<Sum>j\<leftarrow>[0..31]. g (k + j)" and C = C and threads = 1024,
          OF b0r t0r others own])
  also have "(\<Sum>i\<leftarrow>[0..(C - 1) div KB]. \<Sum>j\<leftarrow>[0..31]. g (i * KB + j)) = (\<Sum>k\<leftarrow>[0..C - 1]. g k)"
    unfolding KB_def by (rule sum_chunks[OF gz])
  also have "(\<Sum>k\<leftarrow>[0..C - 1]. g k) = (\<Sum>k\<leftarrow>[0..C - 1].
        if 0 \<le> s - (C - 1) div 2 + k \<and> s - (C - 1) div 2 + k < L
        then elems values [n, h, s - (C - 1) div 2 + k, e] * elems factors [n, h, s - (C - 1) div 2 + k, p k]
        else 0)"
    by (rule arg_cong[where f = sum_list], rule map_cong) (simp_all add: g_def)
  finally show ?thesis
    by (simp add: local_copy_scaled_transpose_def szF lb_def eb_def st_def)
qed

subsection \<open>The adjoint as a sum over the window, and the four operations\<close>

text \<open>
  The sum over all pairs \<open>(l, k)\<close> with \<open>l - C/2 + k = s\<close> has one term for each \<open>k\<close>, at
  \<open>l = s + C/2 - k\<close>. Counting \<open>k\<close> downwards, and with \<open>C/2 + (C-1)/2 = C - 1\<close>, it is the sum
  that the transposed kernel computes under \<^verbatim>\<open>ReverseLK\<close>.
\<close>

lemma sum_list_upto: "(\<Sum>k\<leftarrow>[a..b]. f k) = (\<Sum>k = a..b. f k)"
  by (simp add: sum_list_distinct_conv_sum_set)

lemma half_sum: "0 \<le> C \<Longrightarrow> C div 2 + (C - 1) div 2 = C - (1::int)"
  by presburger

lemma adjoint_reindex:
  fixes f :: "int \<Rightarrow> int \<Rightarrow> real"
  assumes C: "0 \<le> C"
  shows "(\<Sum>l\<leftarrow>[0..L - 1]. \<Sum>k\<leftarrow>[0..C - 1]. if l - C div 2 + k = s then f l k else 0)
       = (\<Sum>k\<leftarrow>[0..C - 1]. if 0 \<le> s - (C - 1) div 2 + k \<and> s - (C - 1) div 2 + k < L
                           then f (s - (C - 1) div 2 + k) (C - k - 1) else 0)"
proof -
  have "(\<Sum>l\<leftarrow>[0..L - 1]. \<Sum>k\<leftarrow>[0..C - 1]. if l - C div 2 + k = s then f l k else 0)
      = (\<Sum>l = 0..L - 1. \<Sum>k = 0..C - 1. if l - C div 2 + k = s then f l k else 0)"
    by (simp only: sum_list_upto)
  also have "\<dots> = (\<Sum>k = 0..C - 1. \<Sum>l = 0..L - 1. if l - C div 2 + k = s then f l k else 0)"
    by (rule sum.swap)
  also have "\<dots> = (\<Sum>k = 0..C - 1. if 0 \<le> s + C div 2 - k \<and> s + C div 2 - k < L
                                 then f (s + C div 2 - k) k else 0)"
  proof (rule sum.cong[OF refl])
    fix k
    have "(\<Sum>l = 0..L - 1. if l - C div 2 + k = s then f l k else 0)
        = (\<Sum>l = 0..L - 1. if l = s + C div 2 - k then f (s + C div 2 - k) k else 0)"
      by (rule sum.cong[OF refl]) auto
    also have "\<dots> = (if s + C div 2 - k \<in> {0..L - 1} then f (s + C div 2 - k) k else 0)"
      by (simp add: sum.delta)
    finally show "(\<Sum>l = 0..L - 1. if l - C div 2 + k = s then f l k else 0)
        = (if 0 \<le> s + C div 2 - k \<and> s + C div 2 - k < L then f (s + C div 2 - k) k else 0)"
      by auto
  qed
  also have "\<dots> = (\<Sum>k = 0..C - 1. if 0 \<le> s - (C - 1) div 2 + k \<and> s - (C - 1) div 2 + k < L
                           then f (s - (C - 1) div 2 + k) (C - k - 1) else 0)"
  proof (rule sum.reindex_bij_witness[where i = "\<lambda>k. C - 1 - k" and j = "\<lambda>k. C - 1 - k"])
    fix k assume "k \<in> {0..C - 1}"
    have e: "s - (C - 1) div 2 + (C - 1 - k) = s + C div 2 - k" using half_sum[OF C] by simp
    have e2: "C - (C - 1 - k) - 1 = k" by simp
    show "(if 0 \<le> s - (C - 1) div 2 + (C - 1 - k) \<and> s - (C - 1) div 2 + (C - 1 - k) < L
           then f (s - (C - 1) div 2 + (C - 1 - k)) (C - (C - 1 - k) - 1) else 0)
        = (if 0 \<le> s + C div 2 - k \<and> s + C div 2 - k < L then f (s + C div 2 - k) k else 0)"
      unfolding e e2 by (rule refl)
  qed auto
  finally show ?thesis by (simp only: sum_list_upto)
qed

lemma tile_loop_keeps:
  assumes "\<And>k t sh out. Q (compute k \<lparr>blockIdx_x = b, blockDim_x = threads, threadIdx_x = t\<rparr> sh out) = Q out"
  shows "Q (snd (tile_loop load compute C b threads k0 (sh, out))) = Q out"
proof (induction "nat (C - k0)" arbitrary: k0 sh out rule: less_induct)
  case less
  show ?case
  proof (cases "k0 < C")
    case True
    define sh' where "sh' = fold (\<lambda>t. load k0 \<lparr>blockIdx_x = b, blockDim_x = threads, threadIdx_x = t\<rparr>)
                   [0..threads - 1] sh"
    define out' where "out' = fold (\<lambda>t. compute k0 \<lparr>blockIdx_x = b, blockDim_x = threads, threadIdx_x = t\<rparr> sh')
                   [0..threads - 1] out"
    have step: "tile_loop load compute C b threads k0 (sh, out)
        = tile_loop load compute C b threads (k0 + KB) (sh', out')"
      using True by (subst tile_loop.simps) (simp add: Let_def sh'_def out'_def)
    have "Q out' = Q out"
      unfolding out'_def by (rule fold_unchanged) (simp add: assms)
    moreover have "Q (snd (tile_loop load compute C b threads (k0 + KB) (sh', out'))) = Q out'"
      using True by (intro less) (simp add: KB_def)
    ultimately show ?thesis by (simp add: step)
  next
    case False
    then show ?thesis by (subst tile_loop.simps) simp
  qed
qed

lemma launch_tiles_keeps:
  assumes "\<And>k th sh out. Q (compute k th sh out) = Q out"
  shows "Q (launch_tiles blocks threads load compute C output) = Q output"
  unfolding launch_tiles_def
  by (rule fold_unchanged) (simp add: tile_loop_keeps assms)

lemma local_copy_scaled_sizes [simp]:
  "sizes (local_copy_scaled blocks threads sm factors values output strides) = sizes output"
  unfolding local_copy_scaled_def
  by (rule launch_tiles_keeps)
     (simp add: local_copy_scaled_compute_def Let_def split: prod.splits)

lemma local_weighted_average_cell:
  assumes A: "sizes attention = [N, H, L, C]" and V: "sizes values = [N, H, L, E]"
    and n: "0 \<le> n" "n < N" and h: "0 \<le> h" "h < H" and l: "0 \<le> l" "l < L"
    and e: "0 \<le> e" "e < E" and C: "0 \<le> C"
  shows "elems (local_weighted_average attention values) [n, h, l, e]
     = (\<Sum>k\<leftarrow>[0..C - 1]. if 0 \<le> l - C div 2 + k \<and> l - C div 2 + k < L
                         then elems attention [n, h, l, k] * elems values [n, h, l - C div 2 + k, e]
                         else 0)"
proof -
  have sz: "size_at attention 0 = N" "size_at attention (Suc 0) = H" "size_at attention 2 = L"
    "size_at values 2 = L" "size_at values 3 = E"
    using A V by (simp_all add: size_at_def)
  show ?thesis
    unfolding local_weighted_average_def Let_def
    by (simp add: sz local_copy_scaled_cell[OF A sz(4,5) n h l e C] zeros_like_def)
qed

lemma grad_queries_cell:
  assumes Q: "sizes queries = [N, H, L, E]" and K: "sizes keys = [N, H, L, E]"
    and G: "sizes grad = [N, H, L, C]"
    and n: "0 \<le> n" "n < N" and h: "0 \<le> h" "h < H" and l: "0 \<le> l" "l < L"
    and e: "0 \<le> e" "e < E" and C: "0 \<le> C"
  shows "elems (fst (local_dot_backward queries keys key_lengths' grad C')) [n, h, l, e]
     = (\<Sum>k\<leftarrow>[0..C - 1]. if 0 \<le> l - C div 2 + k \<and> l - C div 2 + k < L
                         then elems grad [n, h, l, k] * elems keys [n, h, l - C div 2 + k, e]
                         else 0)"
proof -
  have sz: "size_at grad 0 = N" "size_at grad (Suc 0) = H" "size_at grad 2 = L"
    "size_at keys 2 = L" "size_at keys 3 = E"
    using G K by (simp_all add: size_at_def)
  show ?thesis
    unfolding local_dot_backward_def Let_def
    by (simp add: sz local_copy_scaled_cell[OF G sz(4,5) n h l e C] zeros_like_def)
qed

lemma grad_keys_cell:
  assumes Q: "sizes queries = [N, H, L, E]" and K: "sizes keys = [N, H, L, E]"
    and G: "sizes grad = [N, H, L, C]"
    and n: "0 \<le> n" "n < N" and h: "0 \<le> h" "h < H" and s: "0 \<le> s" "s < L"
    and e: "0 \<le> e" "e < E" and C: "0 \<le> C"
  shows "elems (snd (local_dot_backward queries keys key_lengths' grad C')) [n, h, s, e]
     = (\<Sum>k\<leftarrow>[0..C - 1]. if 0 \<le> s - (C - 1) div 2 + k \<and> s - (C - 1) div 2 + k < L
                         then elems queries [n, h, s - (C - 1) div 2 + k, e]
                              * elems grad [n, h, s - (C - 1) div 2 + k, k]
                         else 0)"
proof -
  have sz: "size_at grad 0 = N" "size_at grad (Suc 0) = H" "size_at grad 2 = L"
    "size_at queries 2 = L" "size_at queries 3 = E" "size_at keys 3 = E"
    using G Q K by (simp_all add: size_at_def)
  have p: "IncreasingLK k j C = k + j" for k j by (simp add: IncreasingLK_def)
  show ?thesis
    unfolding local_dot_backward_def Let_def
    by (simp add: sz zeros_like_def
          local_copy_scaled_transpose_cell[where p = "\<lambda>k. k" and lk_policy = IncreasingLK,
            OF G sz(4,5) n h s e C p])
qed

lemma grad_values_cell:
  assumes A: "sizes attention = [N, H, L, C]" and V: "sizes values = [N, H, L, E]"
    and G: "sizes grad = [N, H, L, E]"
    and n: "0 \<le> n" "n < N" and h: "0 \<le> h" "h < H" and s: "0 \<le> s" "s < L"
    and e: "0 \<le> e" "e < E" and C: "0 \<le> C"
  shows "elems (snd (local_weighted_average_backward attention values grad)) [n, h, s, e]
     = (\<Sum>k\<leftarrow>[0..C - 1]. if 0 \<le> s - (C - 1) div 2 + k \<and> s - (C - 1) div 2 + k < L
                         then elems grad [n, h, s - (C - 1) div 2 + k, e]
                              * elems attention [n, h, s - (C - 1) div 2 + k, C - k - 1]
                         else 0)"
proof -
  have sz: "size_at attention 0 = N" "size_at attention (Suc 0) = H" "size_at attention 2 = L"
    "size_at grad 2 = L" "size_at grad 3 = E" "size_at values 3 = E"
    using A G V by (simp_all add: size_at_def)
  have p: "ReverseLK k j C = C - (k + j) - 1" for k j by (simp add: ReverseLK_def)
  show ?thesis
    unfolding local_weighted_average_backward_def Let_def
    by (simp add: sz zeros_like_def
          local_copy_scaled_transpose_cell[where p = "\<lambda>k. C - k - 1" and lk_policy = ReverseLK,
            OF A sz(4,5) n h s e C p])
qed

section \<open>The claims\<close>

text \<open>
  C1. For a query tensor and a key tensor of shape \<open>(N, H, L, E)\<close> and every cell
  \<open>(n, h, l, k)\<close> of the output of \<^verbatim>\<open>local_dot_product\<close>, with \<open>s = l - C/2 + k\<close>:
  the cell holds \<open>Q[n,h,l] \<cdot> K[n,h,s] + mask[l,s]\<close> when \<open>0 \<le> s < L\<close>, and minus
  infinity otherwise. (Proved for every window \<open>C\<close>, even or odd.)
\<close>

theorem local_dot_product_scores:
  assumes "sizes queries = [N, H, L, E]" and "sizes keys = [N, H, L, E]"
    and "0 \<le> n" "n < N" and "0 \<le> h" "h < H" and "0 \<le> l" "l < L" and "0 \<le> k" "k < C"
  shows "elems (local_dot_product queries keys attn_mask' key_lengths' C) [n, h, l, k] =
     (let s = l - C div 2 + k
      in if 0 \<le> s \<and> s < L
         then xadd (Fin (dot E (\<lambda>e. elems queries [n, h, l, e]) (\<lambda>e. elems keys [n, h, s, e])))
                   (elems attn_mask' [l, s])
         else NegInf)"
  unfolding Let_def by (rule local_dot_product_cell[OF assms])

theorem local_dot_product_scores_witness:
  "elems (local_dot_product \<lparr>sizes = [1, 1, 2, 1], elems = (\<lambda>ix. 3)\<rparr>
            \<lparr>sizes = [1, 1, 2, 1], elems = (\<lambda>ix. 5)\<rparr>
            \<lparr>sizes = [2, 2], elems = (\<lambda>ix. Fin 1)\<rparr>
            \<lparr>sizes = [1], elems = (\<lambda>ix. 2)\<rparr> 2) [0, 0, 0, 1] = Fin 16
   \<and> elems (local_dot_product \<lparr>sizes = [1, 1, 2, 1], elems = (\<lambda>ix. 3)\<rparr>
            \<lparr>sizes = [1, 1, 2, 1], elems = (\<lambda>ix. 5)\<rparr>
            \<lparr>sizes = [2, 2], elems = (\<lambda>ix. Fin 1)\<rparr>
            \<lparr>sizes = [1], elems = (\<lambda>ix. 2)\<rparr> 2) [0, 0, 0, 0] = NegInf"
  using local_dot_product_scores[of "\<lparr>sizes = [1, 1, 2, 1], elems = (\<lambda>ix. 3)\<rparr>" 1 1 2 1
            "\<lparr>sizes = [1, 1, 2, 1], elems = (\<lambda>ix. 5)\<rparr>" 0 0 0 1 2
            "\<lparr>sizes = [2, 2], elems = (\<lambda>ix. Fin 1)\<rparr>" "\<lparr>sizes = [1], elems = (\<lambda>ix. 2)\<rparr>"]
        local_dot_product_scores[of "\<lparr>sizes = [1, 1, 2, 1], elems = (\<lambda>ix. 3)\<rparr>" 1 1 2 1
            "\<lparr>sizes = [1, 1, 2, 1], elems = (\<lambda>ix. 5)\<rparr>" 0 0 0 0 2
            "\<lparr>sizes = [2, 2], elems = (\<lambda>ix. Fin 1)\<rparr>" "\<lparr>sizes = [1], elems = (\<lambda>ix. 2)\<rparr>"]
  by (simp add: dot_def)

text \<open>
  C2. \<^verbatim>\<open>local_copy_scaled\<close> adds to every cell \<open>(n, h, l, e)\<close> of its output buffer the sum over
  \<open>k = 0, \<dots>, C - 1\<close> of \<open>factors[n,h,l,k] * values[n,h,l - C/2 + k,e]\<close>, where the terms whose key
  index \<open>l - C/2 + k\<close> is outside \<open>[0, L)\<close> are zero; \<^verbatim>\<open>local_weighted_average\<close> runs it on a
  zero buffer, so its output is this sum for \<open>factors = attention\<close>.
\<close>

theorem local_weighted_average_sum:
  assumes "sizes attention = [N, H, L, C]" and "sizes values = [N, H, L, E]"
    and "0 \<le> n" "n < N" and "0 \<le> h" "h < H" and "0 \<le> l" "l < L" and "0 \<le> e" "e < E" and "0 \<le> C"
  shows "elems (local_copy_scaled (N * H * ceildiv L 32 * ceildiv E 32) 1024 sm attention values output
                  \<lparr>dim_x = H * ceildiv L 32 * ceildiv E 32, dim_y = ceildiv L 32 * ceildiv E 32,
                   dim_z = ceildiv E 32\<rparr>) [n, h, l, e]
           = elems output [n, h, l, e]
             + (\<Sum>k\<leftarrow>[0..C - 1]. if 0 \<le> l - C div 2 + k \<and> l - C div 2 + k < L
                                 then elems attention [n, h, l, k] * elems values [n, h, l - C div 2 + k, e]
                                 else 0)
       \<and> elems (local_weighted_average attention values) [n, h, l, e]
           = (\<Sum>k\<leftarrow>[0..C - 1]. if 0 \<le> l - C div 2 + k \<and> l - C div 2 + k < L
                               then elems attention [n, h, l, k] * elems values [n, h, l - C div 2 + k, e]
                               else 0)"
proof -
  have sz: "size_at values 2 = L" "size_at values 3 = E"
    using assms(2) by (simp_all add: size_at_def)
  show ?thesis
    using local_copy_scaled_cell[OF assms(1) sz assms(3-11)] local_weighted_average_cell[OF assms]
    by simp
qed

theorem local_weighted_average_sum_witness:
  "elems (local_weighted_average \<lparr>sizes = [1, 1, 2, 2], elems = (\<lambda>ix. 3)\<rparr>
            \<lparr>sizes = [1, 1, 2, 1], elems = (\<lambda>ix. 5)\<rparr>) [0, 0, 0, 0] = 15
   \<and> elems (local_weighted_average \<lparr>sizes = [1, 1, 2, 2], elems = (\<lambda>ix. 3)\<rparr>
            \<lparr>sizes = [1, 1, 2, 1], elems = (\<lambda>ix. 5)\<rparr>) [0, 0, 1, 0] = 30"
  using local_weighted_average_sum[of "\<lparr>sizes = [1, 1, 2, 2], elems = (\<lambda>ix. 3)\<rparr>" 1 1 2 2
          "\<lparr>sizes = [1, 1, 2, 1], elems = (\<lambda>ix. 5)\<rparr>" 1 0 0 0 0]
        local_weighted_average_sum[of "\<lparr>sizes = [1, 1, 2, 2], elems = (\<lambda>ix. 3)\<rparr>" 1 1 2 2
          "\<lparr>sizes = [1, 1, 2, 1], elems = (\<lambda>ix. 5)\<rparr>" 1 0 0 1 0]
  by (simp add: upto_rec1)

text \<open>
  C3. The claim is that \<^verbatim>\<open>local_dot_backward\<close> returns the adjoints of the banded score map.
  Its \<^verbatim>\<open>grad_queries\<close> is the adjoint (\<open>grad_queries_cell\<close>). Its \<^verbatim>\<open>grad_keys\<close>, computed
  with \<^verbatim>\<open>IncreasingLK\<close>, is not: at the key position \<open>s\<close> it pairs the query
  \<open>l = s - (C-1)/2 + k\<close> with \<open>grad[l][k]\<close> (\<open>grad_keys_cell\<close>), where the adjoint pairs it with
  \<open>grad[l][C - 1 - k]\<close>. For \<open>L = 2\<close>, \<open>E = 1\<close>, \<open>C = 2\<close>, queries all one and the gradient of the
  scores one at \<open>(l, k) = (0, 1)\<close> and zero elsewhere, the code returns \<open>grad_keys[0] = 0\<close>; the
  adjoint is \<open>1\<close>.
\<close>

theorem grad_keys_not_adjoint:
  "elems (snd (local_dot_backward \<lparr>sizes = [1, 1, 2, 1], elems = (\<lambda>ix. 1)\<rparr>
                 \<lparr>sizes = [1, 1, 2, 1], elems = (\<lambda>ix. 1)\<rparr>
                 \<lparr>sizes = [1], elems = (\<lambda>ix. 2)\<rparr>
                 \<lparr>sizes = [1, 1, 2, 2], elems = (\<lambda>ix. if ix = [0, 0, 0, 1] then 1 else 0)\<rparr> 2))
       [0, 0, 0, 0] = 0
   \<and> (\<Sum>l\<leftarrow>[0..2 - 1]. \<Sum>k\<leftarrow>[0..2 - 1].
         if l - 2 div 2 + k = 0
         then elems \<lparr>sizes = [1, 1, 2, 2], elems = (\<lambda>ix. if ix = [0, 0, 0, 1] then 1 else 0)\<rparr> [0, 0, l, k]
              * elems \<lparr>sizes = [1, 1, 2, 1], elems = (\<lambda>ix. 1)\<rparr> [0, 0, l, 0]
         else 0) = (1::real)"
  using grad_keys_cell[of "\<lparr>sizes = [1, 1, 2, 1], elems = (\<lambda>ix. 1)\<rparr>" 1 1 2 1
          "\<lparr>sizes = [1, 1, 2, 1], elems = (\<lambda>ix. 1)\<rparr>"
          "\<lparr>sizes = [1, 1, 2, 2], elems = (\<lambda>ix. if ix = [0, 0, 0, 1] then 1 else 0)\<rparr>" 2 0 0 0 0
          "\<lparr>sizes = [1], elems = (\<lambda>ix. 2)\<rparr>" 2]
  by (simp add: upto_rec1)

text \<open>
  C4. The second result of \<^verbatim>\<open>local_weighted_average_backward\<close>, computed by the transposed
  kernel with \<^verbatim>\<open>ReverseLK\<close> (\<open>k_mapped = C - k - e_local - 1\<close>), is the adjoint of the windowed
  gather in its value operand: \<open>grad_V[n,h,s,e]\<close> is the sum of
  \<open>attn[n,h,l,k] * grad_output[n,h,l,e]\<close> over all \<open>(l, k)\<close> with \<open>0 \<le> l < L\<close>, \<open>0 \<le> k < C\<close> and
  \<open>l - C/2 + k = s\<close>.
\<close>

theorem grad_values_adjoint:
  assumes "sizes attention = [N, H, L, C]" and "sizes values = [N, H, L, E]"
    and "sizes grad = [N, H, L, E]"
    and "0 \<le> n" "n < N" and "0 \<le> h" "h < H" and "0 \<le> s" "s < L" and "0 \<le> e" "e < E" and "0 \<le> C"
  shows "ReverseLK k e_local C = C - k - e_local - 1
       \<and> elems (snd (local_weighted_average_backward attention values grad)) [n, h, s, e]
           = (\<Sum>l\<leftarrow>[0..L - 1]. \<Sum>k\<leftarrow>[0..C - 1].
                if l - C div 2 + k = s
                then elems attention [n, h, l, k] * elems grad [n, h, l, e]
                else 0)"
proof -
  have "elems (snd (local_weighted_average_backward attention values grad)) [n, h, s, e]
     = (\<Sum>k\<leftarrow>[0..C - 1]. if 0 \<le> s - (C - 1) div 2 + k \<and> s - (C - 1) div 2 + k < L
                         then elems attention [n, h, s - (C - 1) div 2 + k, C - k - 1]
                              * elems grad [n, h, s - (C - 1) div 2 + k, e]
                         else 0)"
    unfolding grad_values_cell[OF assms]
    by (rule arg_cong[where f = sum_list], rule map_cong) (simp_all add: mult.commute)
  also have "\<dots> = (\<Sum>l\<leftarrow>[0..L - 1]. \<Sum>k\<leftarrow>[0..C - 1].
                if l - C div 2 + k = s
                then elems attention [n, h, l, k] * elems grad [n, h, l, e]
                else 0)"
    by (rule adjoint_reindex[OF assms(12), symmetric])
  finally show ?thesis by (simp add: ReverseLK_def)
qed

theorem grad_values_adjoint_witness:
  "elems (snd (local_weighted_average_backward
                 \<lparr>sizes = [1, 1, 2, 2], elems = (\<lambda>ix. if ix = [0, 0, 0, 1] then 1 else 0)\<rparr>
                 \<lparr>sizes = [1, 1, 2, 1], elems = (\<lambda>ix. 5)\<rparr>
                 \<lparr>sizes = [1, 1, 2, 1], elems = (\<lambda>ix. 7)\<rparr>)) [0, 0, 0, 0] = 7"
  using grad_values_adjoint[of
          "\<lparr>sizes = [1, 1, 2, 2], elems = (\<lambda>ix. if ix = [0, 0, 0, 1] then 1 else 0)\<rparr>" 1 1 2 2
          "\<lparr>sizes = [1, 1, 2, 1], elems = (\<lambda>ix. 5)\<rparr>" 1
          "\<lparr>sizes = [1, 1, 2, 1], elems = (\<lambda>ix. 7)\<rparr>" 0 0 0 0 0 0]
  by (simp add: upto_rec1)

text \<open>
  C5, as stated, fails: dense scores with every entry of \<open>|l - s| \<ge> C/2\<close> discarded are not
  the finite entries of the banded output. For \<open>L = 2\<close>, \<open>C = 2\<close> the banded cell of the query
  \<open>l = 1\<close> at \<open>k = 0\<close> is finite and is the score against the key \<open>s = 0\<close>, at the distance
  \<open>|l - s| = 1 = C/2\<close>.
\<close>

theorem dense_band_symmetric_counterexample:
  "elems (local_dot_product \<lparr>sizes = [1, 1, 2, 1], elems = (\<lambda>ix. 3)\<rparr>
            \<lparr>sizes = [1, 1, 2, 1], elems = (\<lambda>ix. 5)\<rparr>
            \<lparr>sizes = [2, 2], elems = (\<lambda>ix. Fin 1)\<rparr>
            \<lparr>sizes = [1], elems = (\<lambda>ix. 2)\<rparr> 2) [0, 0, 1, 0] = Fin 16
   \<and> 1 - 2 div 2 + 0 = (0::int)
   \<and> \<not> dense_kept 2 1 0"
  using local_dot_product_cell[of "\<lparr>sizes = [1, 1, 2, 1], elems = (\<lambda>ix. 3)\<rparr>" 1 1 2 1
            "\<lparr>sizes = [1, 1, 2, 1], elems = (\<lambda>ix. 5)\<rparr>" 0 0 1 0 2
            "\<lparr>sizes = [2, 2], elems = (\<lambda>ix. Fin 1)\<rparr>" "\<lparr>sizes = [1], elems = (\<lambda>ix. 2)\<rparr>"]
  by (simp add: dot_def dense_kept_def)


text \<open>
  C5, amended: the band is not symmetric. The dense entries \<open>(l, s)\<close> with
  \<open>- C/2 \<le> s - l < C - C/2\<close> (for an even \<open>C\<close>: \<open>- C/2 \<le> s - l < C/2\<close>) are the finite entries of
  the banded output: each of them is the banded entry at \<open>k = s - l + C/2\<close>, and every finite
  banded entry is one of them.
\<close>

theorem banded_matches_dense_band:
  assumes Q: "sizes queries = [N, H, L, E]" and K: "sizes keys = [N, H, L, E]"
    and n: "0 \<le> n" "n < N" and h: "0 \<le> h" "h < H" and l: "0 \<le> l" "l < L"
  shows "(0 \<le> s \<and> s < L \<and> - (C div 2) \<le> s - l \<and> s - l < C - C div 2 \<longrightarrow>
            elems (local_dot_product queries keys attn_mask' key_lengths' C) [n, h, l, s - l + C div 2]
              = elems (dense_scores queries keys attn_mask') [n, h, l, s])
       \<and> (0 \<le> k \<and> k < C
            \<and> elems (local_dot_product queries keys attn_mask' key_lengths' C) [n, h, l, k] \<noteq> NegInf \<longrightarrow>
            0 \<le> l - C div 2 + k \<and> l - C div 2 + k < L
            \<and> - (C div 2) \<le> (l - C div 2 + k) - l \<and> (l - C div 2 + k) - l < C - C div 2
            \<and> elems (local_dot_product queries keys attn_mask' key_lengths' C) [n, h, l, k]
              = elems (dense_scores queries keys attn_mask') [n, h, l, l - C div 2 + k])"
proof -
  have E: "size_at queries 3 = E" using Q by (simp add: size_at_def)
  have d: "elems (dense_scores queries keys attn_mask') [n, h, l, s'] =
      xadd (Fin (dot E (\<lambda>e. elems queries [n, h, l, e]) (\<lambda>e. elems keys [n, h, s', e])))
           (elems attn_mask' [l, s'])" for s'
    by (simp add: dense_scores_def E)
  have 1: "elems (local_dot_product queries keys attn_mask' key_lengths' C) [n, h, l, s - l + C div 2]
              = elems (dense_scores queries keys attn_mask') [n, h, l, s]"
    if "0 \<le> s" "s < L" "- (C div 2) \<le> s - l" "s - l < C - C div 2"
  proof -
    have k: "0 \<le> s - l + C div 2" "s - l + C div 2 < C" using that by simp_all
    have s: "l - C div 2 + (s - l + C div 2) = s" by simp
    show ?thesis
      unfolding local_dot_product_cell[OF Q K n h l k] s d using that by simp
  qed
  have 2: "0 \<le> l - C div 2 + k \<and> l - C div 2 + k < L
            \<and> - (C div 2) \<le> (l - C div 2 + k) - l \<and> (l - C div 2 + k) - l < C - C div 2
            \<and> elems (local_dot_product queries keys attn_mask' key_lengths' C) [n, h, l, k]
              = elems (dense_scores queries keys attn_mask') [n, h, l, l - C div 2 + k]"
    if k: "0 \<le> k" "k < C"
      and f: "elems (local_dot_product queries keys attn_mask' key_lengths' C) [n, h, l, k] \<noteq> NegInf"
  proof -
    have r: "0 \<le> l - C div 2 + k \<and> l - C div 2 + k < L"
      using f unfolding local_dot_product_cell[OF Q K n h l k] by (simp split: if_splits)
    show ?thesis
      unfolding local_dot_product_cell[OF Q K n h l k] d using r k by simp
  qed
  show ?thesis using 1 2 by blast
qed

theorem banded_matches_dense_band_witness:
  "elems (local_dot_product \<lparr>sizes = [1, 1, 2, 1], elems = (\<lambda>ix. 3)\<rparr>
            \<lparr>sizes = [1, 1, 2, 1], elems = (\<lambda>ix. 5)\<rparr>
            \<lparr>sizes = [2, 2], elems = (\<lambda>ix. Fin 1)\<rparr>
            \<lparr>sizes = [1], elems = (\<lambda>ix. 2)\<rparr> 2) [0, 0, 1, 0]
     = elems (dense_scores \<lparr>sizes = [1, 1, 2, 1], elems = (\<lambda>ix. 3)\<rparr>
            \<lparr>sizes = [1, 1, 2, 1], elems = (\<lambda>ix. 5)\<rparr>
            \<lparr>sizes = [2, 2], elems = (\<lambda>ix. Fin 1)\<rparr>) [0, 0, 1, 0]"
  using banded_matches_dense_band[of "\<lparr>sizes = [1, 1, 2, 1], elems = (\<lambda>ix. 3)\<rparr>" 1 1 2 1
            "\<lparr>sizes = [1, 1, 2, 1], elems = (\<lambda>ix. 5)\<rparr>" 0 0 1 0 2
            "\<lparr>sizes = [2, 2], elems = (\<lambda>ix. Fin 1)\<rparr>" "\<lparr>sizes = [1], elems = (\<lambda>ix. 2)\<rparr>" 0]
  by simp

text \<open>
  C6. The claim is that the band cells whose key index is outside the sequence are filled with
  minus infinity by \<^verbatim>\<open>local_dot_product\<close> and with zero in the \<^verbatim>\<open>grad_attention\<close> of
  \<^verbatim>\<open>local_weighted_average_backward\<close>, and that every gradient and every weighted sum drops
  their contributions. The fills are as claimed (\<open>local_dot_product_cell\<close>,
  \<open>grad_attention_cell\<close>), and the weighted sum, \<^verbatim>\<open>grad_queries\<close> and \<^verbatim>\<open>grad_values\<close> run over the
  in-range key indices only (\<open>local_weighted_average_cell\<close>, \<open>grad_queries_cell\<close>,
  \<open>grad_values_cell\<close>). The \<^verbatim>\<open>grad_keys\<close> of \<^verbatim>\<open>local_dot_backward\<close> does not drop them: with
  \<^verbatim>\<open>IncreasingLK\<close> it reads \<open>grad[l][k]\<close> at \<open>l = s - (C-1)/2 + k\<close> and tests only that the query
  row \<open>l\<close> is in range (\<open>grad_keys_cell\<close>). For \<open>L = 2\<close>, \<open>E = 1\<close>, \<open>C = 2\<close>, queries and keys all
  one and the gradient of the scores one at the band cell \<open>(l, k) = (0, 0)\<close>, whose key index
  is \<open>-1\<close>, and zero on every other cell, the code returns \<open>grad_keys[0] = 1\<close>, while its
  \<^verbatim>\<open>grad_queries[0]\<close> is \<open>0\<close>, and so is the \<^verbatim>\<open>grad_values[0]\<close> that
  \<^verbatim>\<open>local_weighted_average_backward\<close> computes with \<^verbatim>\<open>ReverseLK\<close> from the same band tensor.
\<close>

theorem grad_keys_keeps_out_of_range:
  "0 - 2 div 2 + 0 = (- 1 :: int)
   \<and> elems (snd (local_dot_backward \<lparr>sizes = [1, 1, 2, 1], elems = (\<lambda>ix. 1)\<rparr>
                 \<lparr>sizes = [1, 1, 2, 1], elems = (\<lambda>ix. 1)\<rparr>
                 \<lparr>sizes = [1], elems = (\<lambda>ix. 2)\<rparr>
                 \<lparr>sizes = [1, 1, 2, 2], elems = (\<lambda>ix. if ix = [0, 0, 0, 0] then 1 else 0)\<rparr> 2))
       [0, 0, 0, 0] = (1::real)
   \<and> elems (fst (local_dot_backward \<lparr>sizes = [1, 1, 2, 1], elems = (\<lambda>ix. 1)\<rparr>
                 \<lparr>sizes = [1, 1, 2, 1], elems = (\<lambda>ix. 1)\<rparr>
                 \<lparr>sizes = [1], elems = (\<lambda>ix. 2)\<rparr>
                 \<lparr>sizes = [1, 1, 2, 2], elems = (\<lambda>ix. if ix = [0, 0, 0, 0] then 1 else 0)\<rparr> 2))
       [0, 0, 0, 0] = (0::real)
   \<and> elems (snd (local_weighted_average_backward
                 \<lparr>sizes = [1, 1, 2, 2], elems = (\<lambda>ix. if ix = [0, 0, 0, 0] then 1 else 0)\<rparr>
                 \<lparr>sizes = [1, 1, 2, 1], elems = (\<lambda>ix. 1)\<rparr>
                 \<lparr>sizes = [1, 1, 2, 1], elems = (\<lambda>ix. 1)\<rparr>))
       [0, 0, 0, 0] = (0::real)"
  using grad_keys_cell[of "\<lparr>sizes = [1, 1, 2, 1], elems = (\<lambda>ix. 1)\<rparr>" 1 1 2 1
          "\<lparr>sizes = [1, 1, 2, 1], elems = (\<lambda>ix. 1)\<rparr>"
          "\<lparr>sizes = [1, 1, 2, 2], elems = (\<lambda>ix. if ix = [0, 0, 0, 0] then 1 else 0)\<rparr>" 2 0 0 0 0
          "\<lparr>sizes = [1], elems = (\<lambda>ix. 2)\<rparr>" 2]
        grad_queries_cell[of "\<lparr>sizes = [1, 1, 2, 1], elems = (\<lambda>ix. 1)\<rparr>" 1 1 2 1
          "\<lparr>sizes = [1, 1, 2, 1], elems = (\<lambda>ix. 1)\<rparr>"
          "\<lparr>sizes = [1, 1, 2, 2], elems = (\<lambda>ix. if ix = [0, 0, 0, 0] then 1 else 0)\<rparr>" 2 0 0 0 0
          "\<lparr>sizes = [1], elems = (\<lambda>ix. 2)\<rparr>" 2]
        grad_values_cell[of
          "\<lparr>sizes = [1, 1, 2, 2], elems = (\<lambda>ix. if ix = [0, 0, 0, 0] then 1 else 0)\<rparr>" 1 1 2 2
          "\<lparr>sizes = [1, 1, 2, 1], elems = (\<lambda>ix. 1)\<rparr>" 1
          "\<lparr>sizes = [1, 1, 2, 1], elems = (\<lambda>ix. 1)\<rparr>" 0 0 0 0]
  by (simp add: upto_rec1)

text \<open>
  C7. After \<^verbatim>\<open>local_weighted_average(attn, V)\<close>, calling
  \<^verbatim>\<open>local_weighted_average_backward\<close> with a gradient of the shape of that output and all
  entries one gives a \<^verbatim>\<open>grad_attention\<close> whose cell \<open>(n, h, l, k)\<close> is the sum of
  \<open>V[n,h,l - C/2 + k,:]\<close> over the feature dimension when the key index \<open>l - C/2 + k\<close> is in
  \<open>[0, L)\<close>, and zero otherwise.
\<close>

theorem weighted_average_round_trip:
  assumes "sizes attention = [N, H, L, C]" and "sizes values = [N, H, L, E]"
    and "0 \<le> n" "n < N" and "0 \<le> h" "h < H" and "0 \<le> l" "l < L" and "0 \<le> k" "k < C"
  shows "(let output = local_weighted_average attention values;
              grad_output = new_full (sizes output) 1;
              grad_attn = fst (local_weighted_average_backward attention values grad_output)
          in elems grad_attn [n, h, l, k] =
               (if 0 \<le> l - C div 2 + k \<and> l - C div 2 + k < L
                then (\<Sum>e\<leftarrow>[0..E - 1]. elems values [n, h, l - C div 2 + k, e])
                else 0))"
proof -
  have sz: "sizes (local_weighted_average attention values) = [N, H, L, E]"
    using assms(2) by (simp add: local_weighted_average_def Let_def zeros_like_def)
  have G: "sizes (new_full [N, H, L, E] (1::real)) = [N, H, L, E]" by (simp add: new_full_def)
  show ?thesis
    unfolding Let_def sz grad_attention_cell[OF assms(1,2) G assms(3-10)]
    by (simp add: dot_def new_full_def)
qed

theorem weighted_average_round_trip_witness:
  "elems (fst (local_weighted_average_backward \<lparr>sizes = [1, 1, 2, 2], elems = (\<lambda>ix. 7)\<rparr>
            \<lparr>sizes = [1, 1, 2, 1], elems = (\<lambda>ix. 5)\<rparr>
            (new_full (sizes (local_weighted_average \<lparr>sizes = [1, 1, 2, 2], elems = (\<lambda>ix. 7)\<rparr>
                                \<lparr>sizes = [1, 1, 2, 1], elems = (\<lambda>ix. 5)\<rparr>)) 1))) [0, 0, 0, 1] = 5"
  using weighted_average_round_trip[of "\<lparr>sizes = [1, 1, 2, 2], elems = (\<lambda>ix. 7)\<rparr>" 1 1 2 2
          "\<lparr>sizes = [1, 1, 2, 1], elems = (\<lambda>ix. 5)\<rparr>" 1 0 0 0 1]
  by (simp add: Let_def upto_rec1)

text \<open>
  C8. \<^verbatim>\<open>sliding_dot\<close> takes the query positions in chunks of \<open>a_blocks = 64\<close>: it runs one
  iteration for each chunk start \<open>0, 64, 128, \<dots>\<close> below \<open>L\<close>, in this order. The iteration of
  the chunk that starts at \<open>l\<close> multiplies the \<open>min (L - l) a_blocks\<close> queries of the chunk
  with the keys of the range from \<open>max 0 (l - C/2)\<close> up to, and without,
  \<open>min L (l - C/2 + C + a_blocks)\<close> in one matrix product, and launches the selection kernel
  on the result. A thread of the selection kernel whose relative index \<open>k = s - l + C/2\<close> is
  outside \<open>[0, C)\<close> returns the output as it found it.
\<close>

theorem sliding_dot_driver:
  fixes A B :: "real tensor"
  assumes A: "sizes A = [N, L, E]" and B: "length (sizes B) = 3" and l: "0 \<le> l" "l < L"
  shows "a_blocks = 64
    \<and> sliding_dot cp A B out C =
        fold (\<lambda>l. sliding_dot_chunk cp A B C l) (map (\<lambda>i. i * a_blocks) [0..(L - 1) div a_blocks]) out
    \<and> (let s_start = max 0 (l - C sdiv 2);
            s_end = min L (l - C sdiv 2 + C + a_blocks);
            n_a = min (L - l) a_blocks;
            n_b = s_end - s_start;
            buff = matmul (narrow A 1 l n_a) (transpose12 (narrow B 1 s_start n_b))
        in sizes buff = [N, n_a, n_b]
           \<and> (\<forall>n i j. elems buff [n, i, j]
                 = dot E (\<lambda>e. elems A [n, i + l, e]) (\<lambda>e. elems B [n, j + s_start, e]))
           \<and> sliding_dot_chunk cp A B C l out' =
               launch (ceildiv (N * n_a * n_b) 1024) 1024
                 (\<lambda>th output. cp th buff output C l s_start (n_a * n_b) n_b) out')
    \<and> (let idx = blockIdx_x th * blockDim_x th + threadIdx_x th;
            n = idx sdiv d12;
            idx = idx - n * d12;
            l_offset = idx sdiv d2;
            s_offset = idx - l_offset * d2;
            k = (s0 + s_offset) - (l0 + l_offset) + C sdiv 2
        in k < 0 \<or> k \<ge> C \<longrightarrow>
             masked_lp_copy_call self th buffer output C l0 s0 d12 d2 = output
             \<and> lp_copy th buffer output' C l0 s0 d12 d2 = output')"
proof -
  have 1: "sliding_dot cp A B out C =
        fold (\<lambda>l. sliding_dot_chunk cp A B C l) (map (\<lambda>i. i * a_blocks) [0..(L - 1) div a_blocks]) out"
    unfolding sliding_dot_def
    by (subst sliding_dot_loop_unroll) (simp_all add: a_blocks_def A size_at_def)
  have 4: "sliding_dot_chunk cp A B C l out' =
       (let s_start = max 0 (l - C sdiv 2);
            s_end = min L (l - C sdiv 2 + C + a_blocks);
            n_a = min (L - l) a_blocks;
            n_b = s_end - s_start;
            buff = matmul (narrow A 1 l n_a) (transpose12 (narrow B 1 s_start n_b))
        in launch (ceildiv (N * n_a * n_b) 1024) 1024
                 (\<lambda>th output. cp th buff output C l s_start (n_a * n_b) n_b) out')"
    using A B by (simp add: sliding_dot_chunk_def Let_def numel_def size_at_def sizes_buff mult.assoc)
  have 5: "(let idx = blockIdx_x th * blockDim_x th + threadIdx_x th;
            n = idx sdiv d12;
            idx = idx - n * d12;
            l_offset = idx sdiv d2;
            s_offset = idx - l_offset * d2;
            k = (s0 + s_offset) - (l0 + l_offset) + C sdiv 2
        in k < 0 \<or> k \<ge> C \<longrightarrow>
             masked_lp_copy_call self th buffer output C l0 s0 d12 d2 = output
             \<and> lp_copy th buffer output' C l0 s0 d12 d2 = output')"
    by (simp add: masked_lp_copy_call_def lp_copy_def Let_def)
  show ?thesis
    unfolding 4 using 1 5 A B by (simp add: Let_def sizes_buff elems_buff a_blocks_def)
qed

theorem sliding_dot_driver_witness:
  "sliding_dot lp_copy \<lparr>sizes = [1, 2, 1], elems = (\<lambda>ix. 3)\<rparr> \<lparr>sizes = [1, 2, 1], elems = (\<lambda>ix. 5)\<rparr>
       \<lparr>sizes = [1, 2, 2], elems = (\<lambda>ix. 0)\<rparr> 2
     = sliding_dot_chunk lp_copy \<lparr>sizes = [1, 2, 1], elems = (\<lambda>ix. 3)\<rparr>
         \<lparr>sizes = [1, 2, 1], elems = (\<lambda>ix. 5)\<rparr> 2 0 \<lparr>sizes = [1, 2, 2], elems = (\<lambda>ix. 0)\<rparr>
   \<and> lp_copy \<lparr>blockIdx_x = 0, blockDim_x = 1024, threadIdx_x = 2\<rparr>
         \<lparr>sizes = [1, 2, 3], elems = (\<lambda>ix. 15)\<rparr> \<lparr>sizes = [1, 2, 2], elems = (\<lambda>ix. 0)\<rparr> 2 0 0 6 3
     = \<lparr>sizes = [1, 2, 2], elems = (\<lambda>ix. 0)\<rparr>"
  using sliding_dot_driver[of "\<lparr>sizes = [1, 2, 1], elems = (\<lambda>ix. 3)\<rparr>" 1 2 1
          "\<lparr>sizes = [1, 2, 1], elems = (\<lambda>ix. 5)\<rparr>" 0 lp_copy
          "\<lparr>sizes = [1, 2, 2], elems = (\<lambda>ix. 0)\<rparr>" 2 "\<lparr>sizes = [1, 2, 2], elems = (\<lambda>ix. 0)\<rparr>"
          "\<lparr>blockIdx_x = 0, blockDim_x = 1024, threadIdx_x = 2\<rparr>" 6 3 0 0
          "\<lparr>attn_mask = \<lparr>sizes = [2, 2], elems = (\<lambda>ix. Fin 0)\<rparr>,
            key_lengths = \<lparr>sizes = [1], elems = (\<lambda>ix. 2)\<rparr>\<rparr>"
          "\<lparr>sizes = [1, 2, 3], elems = (\<lambda>ix. 15)\<rparr>" "\<lparr>sizes = [1, 2, 2], elems = (\<lambda>ix. Fin 0)\<rparr>"
          "\<lparr>sizes = [1, 2, 2], elems = (\<lambda>ix. 0)\<rparr>"]
  by (simp add: Let_def a_blocks_def)

text \<open>
  C9. A call of \<^verbatim>\<open>sliding_dot\<close>, with either copy implementation, changes no cell of the
  output but the cells \<open>(n, l, k)\<close> with \<open>0 \<le> n < N\<close>, \<open>0 \<le> l < L\<close>, \<open>0 \<le> k < C\<close> whose key
  index \<open>s = l - C/2 + k\<close> is in the clipped key range of the chunk of \<open>l\<close>.
\<close>

theorem sliding_dot_frame:
  fixes A B :: "real tensor"
  assumes "sizes A = [N, L, E]" and "length (sizes B) = 3" and "0 \<le> C"
    and "\<not> (0 \<le> n \<and> n < N \<and> 0 \<le> l \<and> l < L \<and> 0 \<le> k \<and> k < C
             \<and> max 0 (a_blocks * (l div a_blocks) - C div 2) \<le> l - C div 2 + k
             \<and> l - C div 2 + k < min L (a_blocks * (l div a_blocks) - C div 2 + C + a_blocks))"
  shows "elems (sliding_dot (masked_lp_copy_call self) A B out C) [n, l, k] = elems out [n, l, k]
       \<and> elems (sliding_dot lp_copy A B out' C) [n, l, k] = elems out' [n, l, k]"
proof -
  have nr: "\<not> (0 \<le> n \<and> n < N \<and> 0 \<le> l \<and> l < L \<and> 0 \<le> k \<and> k < C
             \<and> 0 \<le> l - C div 2 + k \<and> l - C div 2 + k < L)"
  proof
    assume a: "0 \<le> n \<and> n < N \<and> 0 \<le> l \<and> l < L \<and> 0 \<le> k \<and> k < C
             \<and> 0 \<le> l - C div 2 + k \<and> l - C div 2 + k < L"
    have "a_blocks * (l div a_blocks) \<le> l" "l < a_blocks * (l div a_blocks) + a_blocks"
      unfolding a_blocks_def by presburger+
    then have "max 0 (a_blocks * (l div a_blocks) - C div 2) \<le> l - C div 2 + k"
      "l - C div 2 + k < min L (a_blocks * (l div a_blocks) - C div 2 + C + a_blocks)"
      using a by simp_all
    then show False using a assms(4) by simp
  qed
  show ?thesis
    unfolding masked_lp_copy_select lp_copy_select
    by (simp only: sliding_dot_cell[OF assms(1,2,3)] if_not_P[OF nr] simp_thms)
qed

theorem sliding_dot_frame_witness:
  "elems (sliding_dot (masked_lp_copy_call \<lparr>attn_mask = \<lparr>sizes = [2, 2], elems = (\<lambda>ix. Fin 0)\<rparr>,
                                             key_lengths = \<lparr>sizes = [1], elems = (\<lambda>ix. 2)\<rparr>\<rparr>)
            \<lparr>sizes = [1, 2, 1], elems = (\<lambda>ix. 3)\<rparr> \<lparr>sizes = [1, 2, 1], elems = (\<lambda>ix. 5)\<rparr>
            \<lparr>sizes = [1, 2, 2], elems = (\<lambda>ix. Fin 7)\<rparr> 2) [0, 0, 0] = Fin 7
   \<and> elems (sliding_dot lp_copy
            \<lparr>sizes = [1, 2, 1], elems = (\<lambda>ix. 3)\<rparr> \<lparr>sizes = [1, 2, 1], elems = (\<lambda>ix. 5)\<rparr>
            \<lparr>sizes = [1, 2, 2], elems = (\<lambda>ix. 9)\<rparr> 2) [0, 0, 0] = 9"
  using sliding_dot_frame[of "\<lparr>sizes = [1, 2, 1], elems = (\<lambda>ix. 3)\<rparr>" 1 2 1
          "\<lparr>sizes = [1, 2, 1], elems = (\<lambda>ix. 5)\<rparr>" 2 0 0 0
          "\<lparr>attn_mask = \<lparr>sizes = [2, 2], elems = (\<lambda>ix. Fin 0)\<rparr>,
            key_lengths = \<lparr>sizes = [1], elems = (\<lambda>ix. 2)\<rparr>\<rparr>"
          "\<lparr>sizes = [1, 2, 2], elems = (\<lambda>ix. Fin 7)\<rparr>" "\<lparr>sizes = [1, 2, 2], elems = (\<lambda>ix. 9)\<rparr>"]
  by (simp add: a_blocks_def)

text \<open>
  C10. The results of \<^verbatim>\<open>local_dot_product\<close> and of \<^verbatim>\<open>local_dot_backward\<close> are the
  same for any two \<^verbatim>\<open>key_lengths\<close> tensors.
\<close>

theorem key_lengths_unused:
  "local_dot_product queries keys attn_mask' kl1 C = local_dot_product queries keys attn_mask' kl2 C
   \<and> local_dot_backward queries keys kl1 grad C = local_dot_backward queries keys kl2 grad C"
  by (simp add: local_dot_product_def local_dot_backward_def masked_lp_copy_select
      masked_lp_copy_factory_def)

end
